theory Spec2Isabelle
  imports
    Main
    "HOL-Library.AList"
    "HOL-Library.Char_ord"
    "HOL-Library.List_Lexorder"
    "HOL-Library.Multiset"
begin

section \<open>The values that json.load returns\<close>

text \<open>
  \<^verbatim>\<open>merge_release.py\<close> reads every \<^verbatim>\<open>*-mal.json\<close> file with \<^verbatim>\<open>json.load\<close> and works on
  the parsed value with \<^verbatim>\<open>.get\<close>, \<^verbatim>\<open>in\<close>, truth tests and one subscript. The script checks
  no types, so the model keeps the value untyped: every Python value that \<^verbatim>\<open>json.load\<close> can
  return is a \<open>json\<close>, and every operation that Python would refuse is an \<open>error\<close>.

  A Python \<^verbatim>\<open>str\<close> is a \<open>string\<close>; a \<open>char\<close> stands for one code point in the range
  U+0000 .. U+00FF. A Python \<^verbatim>\<open>int\<close> is an \<open>int\<close>. A Python \<^verbatim>\<open>float\<close> is a \<open>pyfloat\<close>: the
  script only tests floats for truth and passes them through, so the sign, the mantissa
  and the exponent are kept as they are. A Python \<^verbatim>\<open>dict\<close> is an association list in
  insertion order, in which the first binding of a key is the one that counts.
\<close>

datatype pyfloat = PyFloat bool nat int | PyInf bool | PyNaN

datatype json =
    JNull
  | JBool bool
  | JInt int
  | JFloat pyfloat
  | JStr string
  | JList "json list"
  | JDict "(string \<times> json) list"

datatype error = JSONDecodeError | AttributeError | TypeError | KeyError

text \<open>A discovered file either fails to parse or parses to a value.\<close>

datatype source_file = NotJSON | Parsed json

text \<open>The output entry \<^verbatim>\<open>{"id": ..., "m": ..., "r": ...}\<close>.\<close>

record compact =
  id :: json
  m :: json
  r :: json

text \<open>
  \<^verbatim>\<open>result\<close>: year \<open>\<rightarrow>\<close> season key \<open>\<rightarrow>\<close> items, two nested Python dicts. A Python dict
  keeps its keys in insertion order and an assignment to an existing key keeps the key's
  place, which is what \<open>AList.update\<close> does.
\<close>

type_synonym seasons = "(string \<times> compact list) list"
type_synonym result = "(string \<times> seasons) list"

subsection \<open>Python primitives used by the script\<close>

text \<open>Python's truth test, as used by \<^verbatim>\<open>not item.get("bgm_id")\<close>.\<close>

fun float_is_zero :: "pyfloat \<Rightarrow> bool" where
  "float_is_zero (PyFloat s mant e) = (mant = 0)"
| "float_is_zero (PyInf s) = False"
| "float_is_zero PyNaN = False"

fun truthy :: "json \<Rightarrow> bool" where
  "truthy JNull = False"
| "truthy (JBool b) = b"
| "truthy (JInt i) = (i \<noteq> 0)"
| "truthy (JFloat x) = (\<not> float_is_zero x)"
| "truthy (JStr s) = (s \<noteq> [])"
| "truthy (JList xs) = (xs \<noteq> [])"
| "truthy (JDict kvs) = (kvs \<noteq> [])"

text \<open>\<^verbatim>\<open>obj.get(key, dflt)\<close>: only a dict has the method.\<close>

definition get :: "json \<Rightarrow> string \<Rightarrow> json \<Rightarrow> error + json" where
  "get obj key dflt =
     (case obj of
        JDict kvs \<Rightarrow> Inr (case map_of kvs key of Some v \<Rightarrow> v | None \<Rightarrow> dflt)
      | _ \<Rightarrow> Inl AttributeError)"

text \<open>\<^verbatim>\<open>obj[key]\<close> with a string key.\<close>

definition subscript :: "json \<Rightarrow> string \<Rightarrow> error + json" where
  "subscript obj key =
     (case obj of
        JDict kvs \<Rightarrow> (case map_of kvs key of Some v \<Rightarrow> Inr v | None \<Rightarrow> Inl KeyError)
      | _ \<Rightarrow> Inl TypeError)"

text \<open>
  \<^verbatim>\<open>for item in xs\<close>: a list gives its elements, a string its characters, a dict its keys;
  nothing else is iterable.
\<close>

definition iterate :: "json \<Rightarrow> error + json list" where
  "iterate v =
     (case v of
        JList xs \<Rightarrow> Inr xs
      | JStr s \<Rightarrow> Inr (map (\<lambda>c. JStr [c]) s)
      | JDict kvs \<Rightarrow> Inr (map (JStr \<circ> fst) (AList.clearjunk kvs))
      | _ \<Rightarrow> Inl TypeError)"

subsection \<open>The module's tables\<close>

definition SEASON_MAP :: "(string \<times> string) list" where
  "SEASON_MAP = [(''winter'', ''1''), (''spring'', ''4''), (''summer'', ''7''), (''fall'', ''10'')]"

definition RATING_MAP :: "(string \<times> string) list" where
  "RATING_MAP = [(''general'', ''gnr''), (''kids'', ''kids''), (''r18'', ''r18'')]"

definition SKIP_STATUS :: "string list" where
  "SKIP_STATUS = [''unconfirmed'', ''error'']"

text \<open>\<^verbatim>\<open>SEASON_MAP.get(season_name, season_name)\<close>; the key is always a string.\<close>

definition SEASON_MAP_get :: "string \<Rightarrow> string" where
  "SEASON_MAP_get season_name =
     (case map_of SEASON_MAP season_name of Some k \<Rightarrow> k | None \<Rightarrow> season_name)"

text \<open>
  \<^verbatim>\<open>RATING_MAP.get(rating, rating)\<close> and \<^verbatim>\<open>status in SKIP_STATUS\<close> hash their argument
  first: a list or a dict is unhashable and raises \<^verbatim>\<open>TypeError\<close>. A value that is not a
  string is equal to no key of the tables.
\<close>

definition RATING_MAP_get :: "json \<Rightarrow> error + json" where
  "RATING_MAP_get rating =
     (case rating of
        JStr s \<Rightarrow> Inr (case map_of RATING_MAP s of Some c \<Rightarrow> JStr c | None \<Rightarrow> rating)
      | JList xs \<Rightarrow> Inl TypeError
      | JDict kvs \<Rightarrow> Inl TypeError
      | _ \<Rightarrow> Inr rating)"

definition in_SKIP_STATUS :: "json \<Rightarrow> error + bool" where
  "in_SKIP_STATUS status =
     (case status of
        JStr s \<Rightarrow> Inr (s \<in> set SKIP_STATUS)
      | JList xs \<Rightarrow> Inl TypeError
      | JDict kvs \<Rightarrow> Inl TypeError
      | _ \<Rightarrow> Inr False)"

subsection \<open>The season pattern\<close>

text \<open>
  \<^verbatim>\<open>re.match(r"(\d{4})-(\w+)", season)\<close>. On code points below 256 the class \<^verbatim>\<open>\d\<close> is
  \<^verbatim>\<open>0-9\<close>, and \<^verbatim>\<open>\w\<close> is the underscore and the alphanumeric characters: the ASCII
  letters and digits and the Latin-1 letters and numeric signs.
\<close>

definition digit_char :: "char \<Rightarrow> bool" where
  "digit_char c = (let n = (of_char c :: nat) in 48 \<le> n \<and> n \<le> 57)"

definition word_char :: "char \<Rightarrow> bool" where
  "word_char c =
     (let n = (of_char c :: nat) in
        (48 \<le> n \<and> n \<le> 57) \<or> (65 \<le> n \<and> n \<le> 90) \<or> n = 95 \<or> (97 \<le> n \<and> n \<le> 122)
        \<or> n = 170 \<or> n = 178 \<or> n = 179 \<or> n = 181 \<or> n = 185 \<or> n = 186
        \<or> (188 \<le> n \<and> n \<le> 190) \<or> (192 \<le> n \<and> n \<le> 214) \<or> (216 \<le> n \<and> n \<le> 246)
        \<or> 248 \<le> n)"

text \<open>
  \<^verbatim>\<open>re.match\<close> anchors the pattern at the start of the string only. \<^verbatim>\<open>\d{4}\<close> takes four
  digits, \<^verbatim>\<open>\w+\<close> is greedy and nothing follows it in the pattern, so the second group is
  the longest run of word characters after the hyphen, and what comes after that run is
  not looked at. The result is \<^verbatim>\<open>match.groups()\<close>.
\<close>

fun match_groups :: "string \<Rightarrow> (string \<times> string) option" where
  "match_groups (d1 # d2 # d3 # d4 # h # rest) =
     (if digit_char d1 \<and> digit_char d2 \<and> digit_char d3 \<and> digit_char d4
         \<and> h = CHR ''-'' \<and> takeWhile word_char rest \<noteq> []
      then Some ([d1, d2, d3, d4], takeWhile word_char rest)
      else None)"
| "match_groups s = None"

text \<open>\<^verbatim>\<open>re.match\<close> raises \<^verbatim>\<open>TypeError\<close> when its subject is not a string.\<close>

definition re_match :: "json \<Rightarrow> error + (string \<times> string) option" where
  "re_match season = (case season of JStr s \<Rightarrow> Inr (match_groups s) | _ \<Rightarrow> Inl TypeError)"

section \<open>The body of main\<close>

subsection \<open>One item (lines 69 to 83)\<close>

text \<open>
  \<open>Inr None\<close> is \<^verbatim>\<open>continue\<close>, \<open>Inr (Some c)\<close> is \<^verbatim>\<open>items.append(c)\<close>. The dict display
  evaluates \<^verbatim>\<open>item["bgm_id"]\<close> before \<^verbatim>\<open>RATING_MAP.get(rating, rating)\<close>.
\<close>

definition compact_item :: "json \<Rightarrow> error + compact option" where
  "compact_item item =
     (case get item ''status'' JNull of Inl e \<Rightarrow> Inl e | Inr status \<Rightarrow>
      case in_SKIP_STATUS status of Inl e \<Rightarrow> Inl e | Inr skip \<Rightarrow>
      if skip then Inr None else
      case get item ''bgm_id'' JNull of Inl e \<Rightarrow> Inl e | Inr bgm_id \<Rightarrow>
      if \<not> truthy bgm_id then Inr None else
      case get item ''mal'' (JDict []) of Inl e \<Rightarrow> Inl e | Inr mal \<Rightarrow>
      case get mal ''media_type'' JNull of Inl e \<Rightarrow> Inl e | Inr media_type \<Rightarrow>
      case get mal ''rating'' JNull of Inl e \<Rightarrow> Inl e | Inr rating \<Rightarrow>
      case subscript item ''bgm_id'' of Inl e \<Rightarrow> Inl e | Inr ident \<Rightarrow>
      case RATING_MAP_get rating of Inl e \<Rightarrow> Inl e | Inr code \<Rightarrow>
      Inr (Some \<lparr>id = ident, m = media_type, r = code\<rparr>))"

subsection \<open>The item loop (lines 67 to 83)\<close>

fun collect_items :: "json list \<Rightarrow> compact list \<Rightarrow> error + compact list" where
  "collect_items [] items = Inr items"
| "collect_items (item # rest) items =
     (case compact_item item of
        Inl e \<Rightarrow> Inl e
      | Inr None \<Rightarrow> collect_items rest items
      | Inr (Some c) \<Rightarrow> collect_items rest (items @ [c]))"

subsection \<open>Storing a file's items (lines 85 to 87)\<close>

text \<open>
  \<^verbatim>\<open>if year not in result: result[year] = {}\<close> and then
  \<^verbatim>\<open>result[year][season_key] = items\<close>. After the first statement the year is a key of
  \<^verbatim>\<open>result\<close>, so the lookup in the second always finds a dict.
\<close>

definition store :: "string \<Rightarrow> string \<Rightarrow> compact list \<Rightarrow> result \<Rightarrow> result" where
  "store year season_key items result =
     (let result1 = (if year \<notin> fst ` set result then AList.update year [] result else result)
      in AList.update year
           (AList.update season_key items
              (case map_of result1 year of Some d \<Rightarrow> d | None \<Rightarrow> []))
           result1)"

subsection \<open>One file (lines 54 to 87)\<close>

definition process_file :: "source_file \<Rightarrow> result \<Rightarrow> error + result" where
  "process_file json_file result =
     (case json_file of NotJSON \<Rightarrow> Inl JSONDecodeError | Parsed data \<Rightarrow>
      case get data ''season'' (JStr []) of Inl e \<Rightarrow> Inl e | Inr season \<Rightarrow>
      case re_match season of Inl e \<Rightarrow> Inl e | Inr None \<Rightarrow> Inr result
      | Inr (Some (year, season_name)) \<Rightarrow>
      let season_key = SEASON_MAP_get season_name in
      case get data ''items'' (JList []) of Inl e \<Rightarrow> Inl e | Inr its \<Rightarrow>
      case iterate its of Inl e \<Rightarrow> Inl e | Inr xs \<Rightarrow>
      case collect_items xs [] of Inl e \<Rightarrow> Inl e | Inr items \<Rightarrow>
      Inr (store year season_key items result))"

subsection \<open>The file loop (lines 53 to 87)\<close>

text \<open>
  \<open>files\<close> are the discovered files in the order in which \<^verbatim>\<open>glob\<close> yields them. The first
  exception ends the run.
\<close>

fun main_loop :: "source_file list \<Rightarrow> result \<Rightarrow> error + result" where
  "main_loop [] result = Inr result"
| "main_loop (json_file # rest) result =
     (case process_file json_file result of
        Inl e \<Rightarrow> Inl e
      | Inr result' \<Rightarrow> main_loop rest result')"

subsection \<open>Sorting (lines 90 to 96)\<close>

definition season_order :: "(string \<times> nat) list" where
  "season_order = [(''1'', 0), (''4'', 1), (''7'', 2), (''10'', 3)]"

text \<open>\<^verbatim>\<open>season_order.get(x, 99)\<close>.\<close>

definition season_order_get :: "string \<Rightarrow> nat" where
  "season_order_get x = (case map_of season_order x of Some n \<Rightarrow> n | None \<Rightarrow> 99)"

text \<open>
  \<^verbatim>\<open>sorted\<close> compares strings by code point, lexicographically, and is stable; so is
  \<open>sort_key\<close>. The keys looked up are keys of the dict they come from.
\<close>

definition sorted_seasons :: "seasons \<Rightarrow> seasons" where
  "sorted_seasons d =
     map (\<lambda>k. (k, the (map_of d k))) (sort_key season_order_get (map fst d))"

definition sorted_result :: "result \<Rightarrow> result" where
  "sorted_result result =
     map (\<lambda>year. (year, sorted_seasons (the (map_of result year)))) (sort (map fst result))"

subsection \<open>main\<close>

text \<open>
  \<open>Inr doc\<close> is the document handed to \<^verbatim>\<open>json.dumps\<close> and printed, with its keys in the
  order in which they are written; \<open>Inl e\<close> is the exception that ends the run before
  anything is printed.
\<close>

definition main :: "source_file list \<Rightarrow> error + result" where
  "main files =
     (case main_loop files [] of
        Inl e \<Rightarrow> Inl e
      | Inr result \<Rightarrow> Inr (sorted_result result))"

section \<open>Notions used to state the properties\<close>

subsection \<open>Fields of an item\<close>

text \<open>
  Reading a field without raising: \<open>JNull\<close> where the field is absent, as
  \<^verbatim>\<open>item.get(key)\<close> gives \<^verbatim>\<open>None\<close>. \<open>mal_of\<close> is the value of \<^verbatim>\<open>item.get("mal", {})\<close>.
\<close>

definition item_field :: "json \<Rightarrow> string \<Rightarrow> json" where
  "item_field item key =
     (case item of
        JDict kvs \<Rightarrow> (case map_of kvs key of Some v \<Rightarrow> v | None \<Rightarrow> JNull)
      | _ \<Rightarrow> JNull)"

definition mal_of :: "json \<Rightarrow> json" where
  "mal_of item =
     (case item of
        JDict kvs \<Rightarrow> (case map_of kvs ''mal'' of Some v \<Rightarrow> v | None \<Rightarrow> JDict [])
      | _ \<Rightarrow> JDict [])"

fun is_dict :: "json \<Rightarrow> bool" where
  "is_dict (JDict kvs) = True"
| "is_dict v = False"

fun hashable :: "json \<Rightarrow> bool" where
  "hashable (JList xs) = False"
| "hashable (JDict kvs) = False"
| "hashable v = True"

text \<open>
  An item of the shape the specification's data model describes: an object whose status
  is a scalar and whose \<^verbatim>\<open>mal\<close> field is absent or an object with a scalar rating.
\<close>

definition well_formed_item :: "json \<Rightarrow> bool" where
  "well_formed_item item =
     (is_dict item \<and> hashable (item_field item ''status'')
      \<and> is_dict (mal_of item) \<and> hashable (item_field (mal_of item) ''rating''))"

subsection \<open>The specification's tables and inclusion rule\<close>

text \<open>
  These three definitions follow the specification's words, not the code: the season
  table, the rating table, and the rule that an item is included when its status is not
  in the skip set and its \<^verbatim>\<open>bgm_id\<close> is truthy.
\<close>

definition season_code :: "string \<Rightarrow> string" where
  "season_code name =
     (if name = ''winter'' then ''1''
      else if name = ''spring'' then ''4''
      else if name = ''summer'' then ''7''
      else if name = ''fall'' then ''10''
      else name)"

definition rating_code :: "json \<Rightarrow> json" where
  "rating_code v =
     (if v = JStr ''general'' then JStr ''gnr''
      else if v = JStr ''kids'' then JStr ''kids''
      else if v = JStr ''r18'' then JStr ''r18''
      else v)"

definition included :: "json \<Rightarrow> bool" where
  "included item =
     (item_field item ''status'' \<notin> {JStr ''unconfirmed'', JStr ''error''}
      \<and> truthy (item_field item ''bgm_id''))"

text \<open>The CompactItem of an item: its identifier, media type and rating code.\<close>

definition compact_of :: "json \<Rightarrow> compact" where
  "compact_of item =
     \<lparr>id = item_field item ''bgm_id'',
      m = item_field (mal_of item) ''media_type'',
      r = rating_code (item_field (mal_of item) ''rating'')\<rparr>"

subsection \<open>What one file contributes\<close>

text \<open>
  The loop body without the store: the key \<open>(year, season_key)\<close> and the items that the
  file would store, \<open>None\<close> when the season does not match, or the exception it raises.
  \<open>process_file_entry\<close> below shows that the loop body is this followed by \<open>store\<close>.
\<close>

type_synonym entry = "(string \<times> string) \<times> compact list"

definition file_entry :: "source_file \<Rightarrow> error + entry option" where
  "file_entry json_file =
     (case json_file of NotJSON \<Rightarrow> Inl JSONDecodeError | Parsed data \<Rightarrow>
      case get data ''season'' (JStr []) of Inl e \<Rightarrow> Inl e | Inr season \<Rightarrow>
      case re_match season of Inl e \<Rightarrow> Inl e | Inr None \<Rightarrow> Inr None
      | Inr (Some (year, season_name)) \<Rightarrow>
      case get data ''items'' (JList []) of Inl e \<Rightarrow> Inl e | Inr its \<Rightarrow>
      case iterate its of Inl e \<Rightarrow> Inl e | Inr xs \<Rightarrow>
      case collect_items xs [] of Inl e \<Rightarrow> Inl e | Inr items \<Rightarrow>
      Inr (Some ((year, SEASON_MAP_get season_name), items)))"

definition store_entry :: "entry option \<Rightarrow> result \<Rightarrow> result" where
  "store_entry en result =
     (case en of
        None \<Rightarrow> result
      | Some ((year, season_key), items) \<Rightarrow> store year season_key items result)"

definition entry_of :: "source_file \<Rightarrow> entry option" where
  "entry_of json_file = (case file_entry json_file of Inl e \<Rightarrow> None | Inr en \<Rightarrow> en)"

fun raises :: "error + 'a \<Rightarrow> bool" where
  "raises (Inl e) = True"
| "raises (Inr v) = False"

subsection \<open>Reading the result\<close>

text \<open>\<^verbatim>\<open>result[year][season_key]\<close> where both keys are present.\<close>

definition lookup2 :: "result \<Rightarrow> string \<Rightarrow> string \<Rightarrow> compact list option" where
  "lookup2 result year season_key =
     (case map_of result year of None \<Rightarrow> None | Some d \<Rightarrow> map_of d season_key)"

text \<open>An association list that is a dict: no key twice, at either level.\<close>

definition dict_like :: "result \<Rightarrow> bool" where
  "dict_like result =
     (distinct (map fst result) \<and> (\<forall>(year, d) \<in> set result. distinct (map fst d)))"

text \<open>Every CompactItem anywhere in a document.\<close>

definition result_items :: "result \<Rightarrow> compact set" where
  "result_items result = (\<Union>(year, d)\<in>set result. \<Union>(k, items)\<in>set d. set items)"

subsection \<open>The specification's season pattern and key order\<close>

text \<open>
  The pattern as the specification words it: four digits, a hyphen, and word characters
  up to the end of the string, with nothing after them.
\<close>

fun spec_season_pattern :: "string \<Rightarrow> bool" where
  "spec_season_pattern (d1 # d2 # d3 # d4 # h # rest) =
     (digit_char d1 \<and> digit_char d2 \<and> digit_char d3 \<and> digit_char d4
      \<and> h = CHR ''-'' \<and> rest \<noteq> [] \<and> list_all word_char rest)"
| "spec_season_pattern s = False"

text \<open>
  The order of the season keys as the specification words it: the canonical codes in the
  order 1, 4, 7, 10, then every other code, in the order in which the keys \<open>ks\<close> were
  inserted.
\<close>

definition canonical_then_inserted :: "string list \<Rightarrow> string list" where
  "canonical_then_inserted ks =
     [k\<leftarrow>ks. k = ''1''] @ [k\<leftarrow>ks. k = ''4''] @ [k\<leftarrow>ks. k = ''7''] @ [k\<leftarrow>ks. k = ''10'']
     @ [k\<leftarrow>ks. k \<notin> {''1'', ''4'', ''7'', ''10''}]"

subsection \<open>Processing order\<close>

text \<open>
  The entries that the files of a run store, in processing order. A list of entries is
  order-independent when two entries for the same year either have the same season key
  and the same items, or have season keys of different rank: no key is stored twice
  with different lists, and no year has two season keys outside the canonical four.
  What a run prints is its document, and nothing when it raises.
\<close>

definition entries :: "source_file list \<Rightarrow> entry list" where
  "entries files = List.map_filter entry_of files"

definition order_independent :: "entry list \<Rightarrow> bool" where
  "order_independent es =
     (\<forall>e1\<in>set es. \<forall>e2\<in>set es.
        fst (fst e1) = fst (fst e2) \<longrightarrow>
          (if snd (fst e1) = snd (fst e2) then snd e1 = snd e2
           else season_order_get (snd (fst e1)) \<noteq> season_order_get (snd (fst e2))))"

definition printed :: "error + result \<Rightarrow> result option" where
  "printed res = (case res of Inl e \<Rightarrow> None | Inr doc \<Rightarrow> Some doc)"

text \<open>
  The keys of a dict after a sequence of assignments, in insertion order: a key that is
  new goes to the end, a key that is present keeps its place. \<open>inserted_keys es year\<close> are
  the season keys that the entries \<open>es\<close> insert into \<^verbatim>\<open>result[year]\<close>, in this order.
\<close>

definition insert_key :: "string \<Rightarrow> string list \<Rightarrow> string list" where
  "insert_key k ks = (if k \<in> set ks then ks else ks @ [k])"

definition inserted_keys :: "entry list \<Rightarrow> string \<Rightarrow> string list" where
  "inserted_keys es year = fold insert_key [snd (fst e). e \<leftarrow> es, fst (fst e) = year] []"

definition season_keys :: "result \<Rightarrow> string \<Rightarrow> string list" where
  "season_keys result year = (case map_of result year of None \<Rightarrow> [] | Some d \<Rightarrow> map fst d)"

section \<open>Example inputs\<close>

text \<open>The items and the file of the specification's end-to-end scenario, and one more item.\<close>

definition ex_item_ok :: json where
  "ex_item_ok = JDict [(''status'', JStr ''confirmed''), (''bgm_id'', JInt 530110),
     (''mal'', JDict [(''media_type'', JStr ''tv''), (''rating'', JStr ''general'')])]"

definition ex_item_error :: json where
  "ex_item_error = JDict [(''status'', JStr ''error''), (''bgm_id'', JInt 1), (''mal'', JDict [])]"

definition ex_item_zero :: json where
  "ex_item_zero = JDict [(''status'', JStr ''confirmed''), (''bgm_id'', JInt 0)]"

definition ex_data :: json where
  "ex_data = JDict [(''season'', JStr ''2026-winter''),
     (''items'', JList [ex_item_ok, ex_item_error, ex_item_zero])]"

definition ex_compact :: compact where
  "ex_compact = \<lparr>id = JInt 530110, m = JStr ''tv'', r = JStr ''gnr''\<rparr>"

definition ex_doc :: result where
  "ex_doc = [(''2026'', [(''1'', [ex_compact])])]"

text \<open>An item that passes both guards and whose \<^verbatim>\<open>mal\<close> field is JSON null.\<close>

definition ex_item_mal_null :: json where
  "ex_item_mal_null = JDict [(''status'', JStr ''confirmed''), (''bgm_id'', JInt 7), (''mal'', JNull)]"

definition ex_data_mal_null :: json where
  "ex_data_mal_null = JDict [(''season'', JStr ''2026-winter''),
     (''items'', JList [ex_item_ok, ex_item_mal_null])]"

text \<open>A second file for the same season, a file whose items are all skipped, a file without
  items, and a file with a season name and a rating that the tables do not know.\<close>

definition ex_item_b :: json where
  "ex_item_b = JDict [(''status'', JStr ''confirmed''), (''bgm_id'', JInt 2),
     (''mal'', JDict [(''media_type'', JStr ''movie''), (''rating'', JStr ''r18'')])]"

definition ex_data_b :: json where
  "ex_data_b = JDict [(''season'', JStr ''2026-winter''), (''items'', JList [ex_item_b])]"

definition ex_compact_b :: compact where
  "ex_compact_b = \<lparr>id = JInt 2, m = JStr ''movie'', r = JStr ''r18''\<rparr>"

definition ex_data_filtered :: json where
  "ex_data_filtered = JDict [(''season'', JStr ''2026-winter''),
     (''items'', JList [ex_item_error, ex_item_zero])]"

definition ex_data_no_items :: json where
  "ex_data_no_items = JDict [(''season'', JStr ''2025-fall'')]"

definition ex_item_pg :: json where
  "ex_item_pg = JDict [(''bgm_id'', JStr ''x1''), (''mal'', JDict [(''rating'', JStr ''pg_13'')])]"

definition ex_data_autumn :: json where
  "ex_data_autumn = JDict [(''season'', JStr ''2024-autumn''), (''items'', JList [ex_item_pg])]"

text \<open>A season followed by more text, a season that does not match, and six files whose
  seasons arrive out of order, two of them with names outside the table.\<close>

definition ex_data_trailing :: json where
  "ex_data_trailing = JDict [(''season'', JStr ''2026-winter!''), (''items'', JList [ex_item_ok])]"

definition ex_data_not_a_season :: json where
  "ex_data_not_a_season = JDict [(''season'', JStr ''not-a-season''), (''items'', JList [ex_item_ok])]"

definition ex_season_files :: "source_file list" where
  "ex_season_files =
     [Parsed (JDict [(''season'', JStr ''2025-fall'')]),
      Parsed (JDict [(''season'', JStr ''2025-zzz'')]),
      Parsed (JDict [(''season'', JStr ''2025-winter'')]),
      Parsed (JDict [(''season'', JStr ''2025-autumn'')]),
      Parsed (JDict [(''season'', JStr ''2025-summer'')]),
      Parsed (JDict [(''season'', JStr ''2024-spring'')])]"

text \<open>The document of the second file for 2026-winter, and three files for three keys.\<close>

definition ex_doc_b :: result where
  "ex_doc_b = [(''2026'', [(''1'', [ex_compact_b])])]"

definition ex_order_files :: "source_file list" where
  "ex_order_files =
     [Parsed (JDict [(''season'', JStr ''2025-zzz'')]),
      Parsed ex_data,
      Parsed (JDict [(''season'', JStr ''2025-fall'')])]"

section \<open>Lemmas\<close>

lemmas ex_defs = ex_item_ok_def ex_item_error_def ex_item_zero_def ex_data_def
  ex_compact_def ex_doc_def ex_item_mal_null_def ex_data_mal_null_def
  ex_item_b_def ex_data_b_def ex_compact_b_def ex_data_filtered_def ex_data_no_items_def
  ex_item_pg_def ex_data_autumn_def ex_data_trailing_def ex_data_not_a_season_def
  ex_season_files_def ex_doc_b_def ex_order_files_def

lemmas spec_defs = item_field_def mal_of_def well_formed_item_def included_def compact_of_def
  rating_code_def season_code_def

lemmas eval_defs = main_def process_file_def get_def re_match_def digit_char_def word_char_def SEASON_MAP_get_def SEASON_MAP_def
    iterate_def compact_item_def in_SKIP_STATUS_def SKIP_STATUS_def subscript_def RATING_MAP_get_def RATING_MAP_def store_def sorted_result_def sorted_seasons_def season_order_get_def season_order_def
    file_entry_def

subsection \<open>Items\<close>

lemma get_not_dict: "\<not> is_dict obj \<Longrightarrow> get obj key dflt = Inl AttributeError"
  by (cases obj) (simp_all add: get_def)

lemma get_dict_JNull: "is_dict obj \<Longrightarrow> get obj key JNull = Inr (item_field obj key)"
  by (cases obj) (simp_all add: get_def item_field_def)

lemma get_Inr_is_dict: "get obj key dflt = Inr v \<Longrightarrow> is_dict obj"
  by (cases obj) (simp_all add: get_def)

lemma get_error: "get obj key dflt = Inl e \<Longrightarrow> e = AttributeError"
  by (cases obj) (simp_all add: get_def)

lemma subscript_after_truthy:
  "truthy (item_field item key) \<Longrightarrow> subscript item key = Inr (item_field item key)"
  by (cases item) (auto simp: subscript_def item_field_def split: option.splits)

lemma in_SKIP_STATUS_error: "in_SKIP_STATUS v = Inl e \<Longrightarrow> e = TypeError"
  by (cases v) (simp_all add: in_SKIP_STATUS_def)

lemma RATING_MAP_get_error: "RATING_MAP_get v = Inl e \<Longrightarrow> e = TypeError"
  by (cases v) (simp_all add: RATING_MAP_get_def)

lemma compact_item_not_KeyError: "compact_item item \<noteq> Inl KeyError"
proof
  assume a: "compact_item item = Inl KeyError"
  show False
  proof (cases "is_dict item")
    case False
    then show False using a by (simp add: compact_item_def get_not_dict)
  next
    case True
    then show False using a
      by (auto simp: compact_item_def get_dict_JNull subscript_after_truthy
          split: sum.splits if_splits
          dest: get_error in_SKIP_STATUS_error RATING_MAP_get_error)
  qed
qed

lemma compact_item_Some_id:
  "compact_item item = Inr (Some c) \<Longrightarrow> id c = item_field item ''bgm_id'' \<and> truthy (id c)"
proof (cases "is_dict item")
  case False
  assume "compact_item item = Inr (Some c)"
  with False show ?thesis by (simp add: compact_item_def get_not_dict)
next
  case True
  assume "compact_item item = Inr (Some c)"
  with True show ?thesis
    by (auto simp: compact_item_def get_dict_JNull subscript_after_truthy
        split: sum.splits if_splits)
qed

lemma get_mal: "is_dict item \<Longrightarrow> get item ''mal'' (JDict []) = Inr (mal_of item)"
  by (cases item) (simp_all add: get_def mal_of_def)

lemma in_SKIP_STATUS_Inr:
  "in_SKIP_STATUS v = Inr b \<Longrightarrow> b = (v \<in> {JStr ''unconfirmed'', JStr ''error''})"
  by (cases v) (auto simp: in_SKIP_STATUS_def SKIP_STATUS_def)

lemma in_SKIP_STATUS_hashable:
  "hashable v \<Longrightarrow> in_SKIP_STATUS v = Inr (v \<in> {JStr ''unconfirmed'', JStr ''error''})"
  by (cases v) (auto simp: in_SKIP_STATUS_def SKIP_STATUS_def)

lemma RATING_MAP_get_Inr: "RATING_MAP_get v = Inr c \<Longrightarrow> c = rating_code v"
  by (cases v) (auto simp: RATING_MAP_get_def RATING_MAP_def rating_code_def split: if_splits)

lemma RATING_MAP_get_hashable: "hashable v \<Longrightarrow> RATING_MAP_get v = Inr (rating_code v)"
  by (cases v) (auto simp: RATING_MAP_get_def RATING_MAP_def rating_code_def)

lemma SEASON_MAP_get_code: "SEASON_MAP_get name = season_code name"
  by (simp add: SEASON_MAP_get_def SEASON_MAP_def season_code_def)

lemma compact_item_Inr:
  assumes "compact_item item = Inr res"
  shows "res = (if included item then Some (compact_of item) else None)"
proof (cases "is_dict item")
  case False
  with assms show ?thesis by (simp add: compact_item_def get_not_dict)
next
  case True
  show ?thesis
  proof (cases "is_dict (mal_of item)")
    case False
    with True assms show ?thesis
      by (auto simp: compact_item_def get_dict_JNull get_mal get_not_dict included_def
          split: sum.splits if_splits dest: in_SKIP_STATUS_Inr)
  next
    case mal: True
    with True assms show ?thesis
      by (auto simp: compact_item_def get_dict_JNull get_mal subscript_after_truthy
          included_def compact_of_def
          split: sum.splits if_splits dest: in_SKIP_STATUS_Inr RATING_MAP_get_Inr)
  qed
qed

lemma compact_item_well_formed:
  assumes "well_formed_item item"
  shows "compact_item item = Inr (if included item then Some (compact_of item) else None)"
  using assms
  by (simp add: well_formed_item_def compact_item_def get_dict_JNull get_mal
      in_SKIP_STATUS_hashable subscript_after_truthy RATING_MAP_get_hashable
      included_def compact_of_def)

lemma collect_items_Inr:
  "collect_items xs acc = Inr cs \<Longrightarrow> cs = acc @ map compact_of (filter included xs)"
proof (induction xs arbitrary: acc)
  case Nil
  then show ?case by simp
next
  case (Cons x xs)
  from Cons.prems obtain res where res: "compact_item x = Inr res"
    by (auto split: sum.splits)
  have res_eq: "res = (if included x then Some (compact_of x) else None)"
    using res by (rule compact_item_Inr)
  show ?case
  proof (cases "included x")
    case True
    with res res_eq Cons.prems have "collect_items xs (acc @ [compact_of x]) = Inr cs"
      by simp
    from Cons.IH [OF this] True show ?thesis by simp
  next
    case False
    with res res_eq Cons.prems have "collect_items xs acc = Inr cs"
      by simp
    from Cons.IH [OF this] False show ?thesis by simp
  qed
qed

lemma collect_items_well_formed:
  "\<forall>x\<in>set xs. well_formed_item x \<Longrightarrow>
   collect_items xs acc = Inr (acc @ map compact_of (filter included xs))"
  by (induction xs arbitrary: acc) (simp_all add: compact_item_well_formed)

lemma collect_items_not_KeyError: "collect_items xs acc \<noteq> Inl KeyError"
  by (induction xs arbitrary: acc)
     (auto split: sum.splits option.splits simp: compact_item_not_KeyError)

subsection \<open>Files\<close>

lemma process_file_entry:
  "process_file f result =
     (case file_entry f of Inl e \<Rightarrow> Inl e | Inr en \<Rightarrow> Inr (store_entry en result))"
  by (simp add: process_file_def file_entry_def store_entry_def
      split: source_file.splits sum.splits option.splits prod.splits)

lemma main_loop_Inl:
  "main_loop files result = Inl e \<Longrightarrow> \<exists>f\<in>set files. file_entry f = Inl e"
  by (induction files arbitrary: result)
     (auto simp: process_file_entry split: sum.splits)

lemma main_loop_raises:
  "raises (main_loop files result) = (\<exists>f\<in>set files. raises (file_entry f))"
proof (induction files arbitrary: result)
  case Nil
  show ?case by simp
next
  case (Cons f files)
  show ?case
  proof (cases "file_entry f")
    case (Inl e)
    then show ?thesis by (simp add: process_file_entry)
  next
    case (Inr en)
    then show ?thesis using Cons.IH [of "store_entry en result"]
      by (simp add: process_file_entry)
  qed
qed

lemma main_loop_fold:
  "\<not> raises (main_loop files result) \<Longrightarrow>
   main_loop files result = Inr (fold (\<lambda>f. store_entry (entry_of f)) files result)"
proof (induction files arbitrary: result)
  case Nil
  show ?case by simp
next
  case (Cons f files)
  show ?case
  proof (cases "file_entry f")
    case (Inl e)
    with Cons.prems show ?thesis by (simp add: process_file_entry)
  next
    case (Inr en)
    with Cons.prems have "\<not> raises (main_loop files (store_entry en result))"
      by (simp add: process_file_entry)
    from Cons.IH [OF this] Inr show ?thesis
      by (simp add: process_file_entry entry_of_def)
  qed
qed

subsection \<open>The store\<close>

lemma map_of_store:
  "map_of (store y k items result) y' =
     (if y' = y
      then Some (AList.update k items (case map_of result y of Some d \<Rightarrow> d | None \<Rightarrow> []))
      else map_of result y')"
proof (cases "y \<in> fst ` set result")
  case True
  then show ?thesis by (simp add: store_def update_conv')
next
  case False
  then have "map_of result y = None" by (simp add: map_of_eq_None_iff)
  with False show ?thesis by (simp add: store_def update_conv')
qed

lemma keys_store:
  "map fst (store y k items result) =
     (if y \<in> set (map fst result) then map fst result else map fst result @ [y])"
  by (simp add: store_def Let_def update_keys dom_update)

lemma lookup2_store:
  "lookup2 (store y k items result) y' k' =
     (if y' = y \<and> k' = k then Some items else lookup2 result y' k')"
  by (auto simp: lookup2_def map_of_store update_conv' split: option.splits)

lemma dict_like_store:
  assumes "dict_like result"
  shows "dict_like (store y k items result)"
proof -
  have d: "distinct (map fst (store y k items result))"
    using assms by (simp add: keys_store dict_like_def)
  have "distinct (map fst d')" if "(y', d') \<in> set (store y k items result)" for y' d'
  proof -
    from d that have m: "map_of (store y k items result) y' = Some d'"
      by simp
    show ?thesis
    proof (cases "y' = y")
      case True
      with m have d': "d' = AList.update k items (case map_of result y of Some d \<Rightarrow> d | None \<Rightarrow> [])"
        by (simp add: map_of_store)
      have "distinct (map fst (case map_of result y of Some d \<Rightarrow> d | None \<Rightarrow> []))"
        using assms by (auto simp: dict_like_def split: option.splits dest!: map_of_SomeD)
      then show ?thesis unfolding d' by (rule distinct_update)
    next
      case False
      with m have "map_of result y' = Some d'" by (simp add: map_of_store)
      then have "(y', d') \<in> set result" by (rule map_of_SomeD)
      with assms show ?thesis by (auto simp: dict_like_def)
    qed
  qed
  with d show ?thesis by (auto simp: dict_like_def)
qed

lemma dict_like_store_entry: "dict_like result \<Longrightarrow> dict_like (store_entry en result)"
  by (auto simp: store_entry_def dict_like_store split: option.splits)

lemma dict_like_fold:
  "dict_like result \<Longrightarrow> dict_like (fold (\<lambda>f. store_entry (entry_of f)) files result)"
  by (induction files arbitrary: result) (simp_all add: dict_like_store_entry)

lemma dict_like_main_loop:
  assumes "main_loop files result = Inr result'" and "dict_like result"
  shows "dict_like result'"
proof -
  from assms(1) have "\<not> raises (main_loop files result)" by simp
  from main_loop_fold [OF this] assms(1)
  have "result' = fold (\<lambda>f. store_entry (entry_of f)) files result" by simp
  with assms(2) show ?thesis by (simp add: dict_like_fold)
qed

lemma dict_like_Nil: "dict_like []"
  by (simp add: dict_like_def)

subsection \<open>Sorting and lookup\<close>

lemma set_update_subset: "set (AList.update k v al) \<subseteq> insert (k, v) (set al)"
  by (induction al) auto

lemma map_of_sorted_seasons: "map_of (sorted_seasons d) = map_of d"
proof
  fix k
  show "map_of (sorted_seasons d) k = map_of d k"
  proof (cases "map_of d k")
    case None
    then have "k \<notin> set (map fst d)" by (simp add: map_of_eq_None_iff)
    with None show ?thesis
      by (simp add: sorted_seasons_def map_of_map_restrict restrict_map_def)
  next
    case (Some v)
    then have "k \<in> set (map fst d)" by (metis map_of_eq_None_iff option.distinct(1) set_map)
    with Some show ?thesis
      by (simp add: sorted_seasons_def map_of_map_restrict restrict_map_def)
  qed
qed

lemma map_of_sorted_result:
  "map_of (sorted_result result) year = map_option sorted_seasons (map_of result year)"
proof (cases "map_of result year")
  case None
  then have "year \<notin> set (map fst result)" by (simp add: map_of_eq_None_iff)
  with None show ?thesis
    by (simp add: sorted_result_def map_of_map_restrict restrict_map_def)
next
  case (Some d)
  then have "year \<in> set (map fst result)" by (metis map_of_eq_None_iff option.distinct(1) set_map)
  with Some show ?thesis
    by (simp add: sorted_result_def map_of_map_restrict restrict_map_def)
qed

lemma lookup2_sorted_result: "lookup2 (sorted_result result) year k = lookup2 result year k"
  by (cases "map_of result year")
     (simp_all add: lookup2_def map_of_sorted_result map_of_sorted_seasons)

lemma set_sorted_seasons: "set (sorted_seasons d) \<subseteq> set d"
proof
  fix p assume "p \<in> set (sorted_seasons d)"
  then obtain k where k: "k \<in> fst ` set d" and p: "p = (k, the (map_of d k))"
    by (auto simp: sorted_seasons_def)
  from k obtain v where "map_of d k = Some v"
    by (metis map_of_eq_None_iff not_Some_eq)
  with p show "p \<in> set d" by (auto dest: map_of_SomeD)
qed

lemma result_items_sorted_result: "result_items (sorted_result result) \<subseteq> result_items result"
proof
  fix c assume "c \<in> result_items (sorted_result result)"
  then obtain year k items where y: "year \<in> fst ` set result"
    and k: "(k, items) \<in> set (sorted_seasons (the (map_of result year)))" and c: "c \<in> set items"
    by (auto simp: result_items_def sorted_result_def)
  from y obtain d where d: "map_of result year = Some d"
    by (metis map_of_eq_None_iff not_Some_eq)
  then have "(year, d) \<in> set result" by (rule map_of_SomeD)
  moreover from k d set_sorted_seasons have "(k, items) \<in> set d" by auto
  ultimately show "c \<in> result_items result" using c
    by (auto simp: result_items_def)
qed

lemma result_items_lookup2:
  assumes "dict_like result" and "c \<in> result_items result"
  shows "\<exists>year k items. lookup2 result year k = Some items \<and> c \<in> set items"
proof -
  from assms(2) obtain year d k items where yd: "(year, d) \<in> set result"
    and ki: "(k, items) \<in> set d" and c: "c \<in> set items"
    by (auto simp: result_items_def)
  from assms(1) yd have m: "map_of result year = Some d" and dd: "distinct (map fst d)"
    by (auto simp: dict_like_def)
  from dd ki have "map_of d k = Some items" by simp
  with m have "lookup2 result year k = Some items" by (simp add: lookup2_def)
  with c show ?thesis by blast
qed

lemma lookup2_store_entry:
  "lookup2 (store_entry en result) year k =
     (case en of None \<Rightarrow> lookup2 result year k
      | Some (key, items) \<Rightarrow> if key = (year, k) then Some items else lookup2 result year k)"
  by (auto simp: store_entry_def lookup2_store split: option.splits)

lemma lookup2_fold_source:
  "lookup2 (fold (\<lambda>f. store_entry (entry_of f)) files result) year k = Some items \<Longrightarrow>
   lookup2 result year k = Some items \<or> (\<exists>f\<in>set files. entry_of f = Some ((year, k), items))"
proof (induction files arbitrary: result)
  case Nil
  then show ?case by simp
next
  case (Cons f files)
  from Cons.IH [of "store_entry (entry_of f) result"] Cons.prems
  have "lookup2 (store_entry (entry_of f) result) year k = Some items
        \<or> (\<exists>f\<in>set files. entry_of f = Some ((year, k), items))"
    by simp
  then show ?case
    by (auto simp: lookup2_store_entry split: option.splits if_splits)
qed

lemma lookup2_fold_skip:
  "\<forall>f\<in>set files. \<forall>items. entry_of f \<noteq> Some ((year, k), items) \<Longrightarrow>
   lookup2 (fold (\<lambda>f. store_entry (entry_of f)) files result) year k = lookup2 result year k"
proof (induction files arbitrary: result)
  case Nil
  show ?case by simp
next
  case (Cons f files)
  from Cons.prems have "lookup2 (store_entry (entry_of f) result) year k = lookup2 result year k"
    by (auto simp: lookup2_store_entry split: option.splits)
  with Cons.IH [of "store_entry (entry_of f) result"] Cons.prems show ?case by simp
qed

lemma lookup2_fold_last:
  assumes "entry_of f = Some ((year, k), items)"
    and "\<forall>g\<in>set post. \<forall>items'. entry_of g \<noteq> Some ((year, k), items')"
  shows "lookup2 (fold (\<lambda>f. store_entry (entry_of f)) (pre @ f # post) result) year k = Some items"
  using assms by (simp add: lookup2_fold_skip lookup2_store_entry)

lemma lookup2_Nil: "lookup2 [] year k = None"
  by (simp add: lookup2_def)

lemma main_Inr:
  assumes "main files = Inr doc"
  shows "main_loop files [] = Inr (fold (\<lambda>f. store_entry (entry_of f)) files [])
         \<and> doc = sorted_result (fold (\<lambda>f. store_entry (entry_of f)) files [])"
proof -
  from assms have "\<not> raises (main_loop files [])"
    by (auto simp: main_def split: sum.splits)
  from main_loop_fold [OF this] assms show ?thesis
    by (simp add: main_def)
qed

lemma main_no_raise:
  assumes "\<forall>f\<in>set files. \<not> raises (file_entry f)"
  shows "main files = Inr (sorted_result (fold (\<lambda>f. store_entry (entry_of f)) files []))"
proof -
  from assms have "\<not> raises (main_loop files [])" by (simp add: main_loop_raises)
  from main_loop_fold [OF this] show ?thesis by (simp add: main_def)
qed

lemma main_Inl: "main files = Inl e \<Longrightarrow> \<exists>f\<in>set files. file_entry f = Inl e"
  by (auto simp: main_def split: sum.splits dest: main_loop_Inl)

lemma file_entry_items:
  assumes "file_entry (Parsed data) = Inr (Some (key, items))"
    and "get data ''items'' (JList []) = Inr (JList xs)"
  shows "collect_items xs [] = Inr items"
  using assms
  by (auto simp: file_entry_def iterate_def split: sum.splits option.splits prod.splits)

lemma main_lookup_last:
  assumes "main (pre @ f # post) = Inr doc"
    and "file_entry f = Inr (Some ((year, k), items))"
    and "\<forall>g\<in>set post. \<forall>items'. file_entry g \<noteq> Inr (Some ((year, k), items'))"
  shows "lookup2 doc year k = Some items"
proof -
  let ?F = "\<lambda>f. store_entry (entry_of f)"
  from main_Inr [OF assms(1)] have doc: "doc = sorted_result (fold ?F (pre @ f # post) [])"
    by simp
  from assms(2) have e: "entry_of f = Some ((year, k), items)"
    by (simp add: entry_of_def)
  have "\<forall>g\<in>set post. \<forall>items'. entry_of g \<noteq> Some ((year, k), items')"
    using assms(3) by (auto simp: entry_of_def split: sum.splits)
  from lookup2_fold_last [OF e this] show ?thesis
    by (simp add: doc lookup2_sorted_result)
qed

lemma iterate_error: "iterate v = Inl e \<Longrightarrow> e = TypeError"
  by (cases v) (simp_all add: iterate_def)

lemma re_match_error: "re_match v = Inl e \<Longrightarrow> e = TypeError"
  by (cases v) (simp_all add: re_match_def)

lemma file_entry_not_KeyError: "file_entry f \<noteq> Inl KeyError"
proof
  assume "file_entry f = Inl KeyError"
  then show False
    by (auto simp: file_entry_def collect_items_not_KeyError
        split: source_file.splits sum.splits option.splits prod.splits
        dest: get_error re_match_error iterate_error)
qed

lemma file_entry_collect:
  assumes "file_entry f = Inr (Some (key, items))"
  shows "\<exists>xs. collect_items xs [] = Inr items"
  using assms
  by (auto simp: file_entry_def split: source_file.splits sum.splits option.splits prod.splits)

lemma collect_items_truthy:
  assumes "collect_items xs [] = Inr items" and "c \<in> set items"
  shows "truthy (id c)"
proof -
  from collect_items_Inr [OF assms(1)] assms(2)
  obtain x where "included x" and "c = compact_of x" by auto
  then show ?thesis by (simp add: included_def compact_of_def)
qed

lemma main_items_truthy:
  assumes "main files = Inr doc" and "c \<in> result_items doc"
  shows "truthy (id c)"
proof -
  let ?r = "fold (\<lambda>f. store_entry (entry_of f)) files []"
  from main_Inr [OF assms(1)] have doc: "doc = sorted_result ?r" by simp
  have "dict_like ?r" by (simp add: dict_like_fold dict_like_Nil)
  moreover from assms(2) doc result_items_sorted_result have "c \<in> result_items ?r" by auto
  ultimately obtain year k items where l: "lookup2 ?r year k = Some items" and c: "c \<in> set items"
    using result_items_lookup2 by blast
  from lookup2_fold_source [OF l] obtain f where "entry_of f = Some ((year, k), items)"
    by (auto simp: lookup2_Nil)
  then have "file_entry f = Inr (Some ((year, k), items))"
    by (auto simp: entry_of_def split: sum.splits)
  from file_entry_collect [OF this] obtain xs where "collect_items xs [] = Inr items" ..
  from collect_items_truthy [OF this c] show ?thesis .
qed

lemma collect_items_first_error:
  assumes "\<forall>x\<in>set pre. \<not> raises (compact_item x)" and "compact_item item = Inl e"
  shows "collect_items (pre @ item # post) acc = Inl e"
  using assms
proof (induction pre arbitrary: acc)
  case Nil
  then show ?case by simp
next
  case (Cons x pre)
  then show ?case by (cases "compact_item x") (auto split: option.splits)
qed

lemma main_raises: "raises (main files) = (\<exists>f\<in>set files. raises (file_entry f))"
  using main_loop_raises [of files "[]"]
  by (cases "main_loop files []") (simp_all add: main_def)

lemma main_loop_first_error:
  assumes "\<forall>f\<in>set pre. \<not> raises (file_entry f)" and "file_entry f = Inl e"
  shows "main_loop (pre @ f # post) result = Inl e"
  using assms
proof (induction pre arbitrary: result)
  case Nil
  then show ?case by (simp add: process_file_entry)
next
  case (Cons g pre)
  then show ?case by (cases "file_entry g") (simp_all add: process_file_entry)
qed

lemma main_first_error:
  assumes "\<forall>f\<in>set pre. \<not> raises (file_entry f)" and "file_entry f = Inl e"
  shows "main (pre @ f # post) = Inl e"
  using main_loop_first_error [OF assms] by (simp add: main_def)

lemma file_entry_NotJSON: "file_entry NotJSON = Inl JSONDecodeError"
  by (simp add: file_entry_def)

lemma file_entry_season:
  assumes "file_entry (Parsed data) = Inr (Some ((year, k), items))"
  shows "\<exists>s name. get data ''season'' (JStr []) = Inr (JStr s)
           \<and> match_groups s = Some (year, name) \<and> k = season_code name"
proof -
  from assms obtain season where g: "get data ''season'' (JStr []) = Inr season"
    by (auto simp: file_entry_def split: sum.splits)
  from assms g obtain name where m: "re_match season = Inr (Some (year, name))"
    and k: "k = SEASON_MAP_get name"
    by (auto simp: file_entry_def split: sum.splits option.splits prod.splits)
  from m obtain s where "season = JStr s" and "match_groups s = Some (year, name)"
    by (cases season) (simp_all add: re_match_def)
  with g k show ?thesis by (auto simp: SEASON_MAP_get_code)
qed

lemma process_file_Some:
  "file_entry f = Inr (Some ((year, k), items)) \<Longrightarrow>
   process_file f result = Inr (store year k items result)"
  by (simp add: process_file_entry store_entry_def)

lemma collect_items_all_skipped:
  "\<forall>x\<in>set xs. compact_item x = Inr None \<Longrightarrow> collect_items xs acc = Inr acc"
  by (induction xs arbitrary: acc) simp_all

lemma lookup2_SomeD:
  assumes "lookup2 doc year k = Some items"
  shows "\<exists>d. (year, d) \<in> set doc \<and> (k, items) \<in> set d"
  using assms by (auto simp: lookup2_def split: option.splits dest: map_of_SomeD)

subsection \<open>The season pattern\<close>

lemma match_groups_SomeD:
  assumes "match_groups s = Some (year, name)"
  shows "\<exists>rest. s = year @ ''-'' @ name @ rest \<and> length year = 4 \<and> list_all digit_char year
           \<and> name \<noteq> [] \<and> list_all word_char name \<and> (rest = [] \<or> \<not> word_char (hd rest))"
proof -
  from assms obtain d1 d2 d3 d4 h tl where s: "s = d1 # d2 # d3 # d4 # h # tl"
    by (cases s rule: match_groups.cases) simp_all
  from assms s have y: "year = [d1, d2, d3, d4]" and n: "name = takeWhile word_char tl"
    and h: "h = CHR ''-''" and d: "list_all digit_char year" and ne: "name \<noteq> []"
    by (auto split: if_splits)
  let ?rest = "dropWhile word_char tl"
  have "s = year @ ''-'' @ name @ ?rest" by (simp add: s y n h)
  moreover have "list_all word_char name"
    by (simp add: n list_all_iff) (meson set_takeWhileD)
  moreover have "?rest = [] \<or> \<not> word_char (hd ?rest)"
    by (cases "?rest = []") (simp_all add: hd_dropWhile)
  ultimately show ?thesis using y d ne by auto
qed

lemma match_groups_SomeI:
  assumes "s = year @ ''-'' @ name @ rest" and "length year = 4" and "list_all digit_char year"
    and "name \<noteq> []" and "list_all word_char name" and "rest = [] \<or> \<not> word_char (hd rest)"
  shows "match_groups s = Some (year, name)"
proof -
  from assms(2) obtain d1 d2 d3 d4 where y: "year = [d1, d2, d3, d4]"
    by (auto simp: numeral_eq_Suc length_Suc_conv)
  from assms(6) have "takeWhile word_char rest = []"
    by (cases rest) auto
  with assms(5) have "takeWhile word_char (name @ rest) = name"
    by (simp add: list_all_iff)
  with assms(1,3,4) y show ?thesis by simp
qed

lemma spec_season_pattern_iff:
  "spec_season_pattern s \<longleftrightarrow> (\<exists>year name. match_groups s = Some (year, name) \<and> s = year @ ''-'' @ name)"
proof
  assume a: "spec_season_pattern s"
  then obtain d1 d2 d3 d4 h tl where s: "s = d1 # d2 # d3 # d4 # h # tl"
    by (cases s rule: spec_season_pattern.cases) simp_all
  with a have tw: "takeWhile word_char tl = tl" by (simp add: list_all_iff)
  from a s have "digit_char d1" "digit_char d2" "digit_char d3" "digit_char d4"
    "h = CHR ''-''" "tl \<noteq> []"
    by simp_all
  then have "match_groups s = Some ([d1, d2, d3, d4], tl) \<and> s = [d1, d2, d3, d4] @ ''-'' @ tl"
    unfolding s by (simp add: tw)
  then show "\<exists>year name. match_groups s = Some (year, name) \<and> s = year @ ''-'' @ name" by blast
next
  assume "\<exists>year name. match_groups s = Some (year, name) \<and> s = year @ ''-'' @ name"
  then obtain year name where m: "match_groups s = Some (year, name)" and s: "s = year @ ''-'' @ name"
    by blast
  from match_groups_SomeD [OF m] obtain rest where
    r: "s = year @ ''-'' @ name @ rest" and l: "length year = 4" and d: "list_all digit_char year"
    and ne: "name \<noteq> []" and w: "list_all word_char name"
    by blast
  from l obtain d1 d2 d3 d4 where y: "year = [d1, d2, d3, d4]"
    by (auto simp: numeral_eq_Suc length_Suc_conv)
  with s d ne w show "spec_season_pattern s" by simp
qed

lemma file_entry_no_match:
  assumes "get data ''season'' (JStr []) = Inr (JStr s)" and "match_groups s = None"
  shows "file_entry (Parsed data) = Inr None"
  using assms by (simp add: file_entry_def re_match_def)

lemma file_entry_match:
  assumes "get data ''season'' (JStr []) = Inr (JStr s)" and "match_groups s = Some (year, name)"
    and "\<not> raises (file_entry (Parsed data))"
  shows "\<exists>items. file_entry (Parsed data) = Inr (Some ((year, season_code name), items))"
  using assms
  by (auto simp: file_entry_def re_match_def SEASON_MAP_get_code split: sum.splits)

lemma file_entry_well_formed:
  assumes "get data ''season'' (JStr []) = Inr (JStr s)"
    and "get data ''items'' (JList []) = Inr (JList xs)" and "\<forall>x\<in>set xs. well_formed_item x"
  shows "\<not> raises (file_entry (Parsed data))"
  using assms collect_items_well_formed [OF assms(3), of "[]"]
  by (auto simp: file_entry_def re_match_def iterate_def split: option.splits)

subsection \<open>The order of the keys\<close>

lemma season_order_get_cases:
  "season_order_get k =
     (if k = ''1'' then 0 else if k = ''4'' then 1 else if k = ''7'' then 2
      else if k = ''10'' then 3 else 99)"
  by (simp add: season_order_get_def season_order_def)

lemma mset_canonical_then_inserted: "mset (canonical_then_inserted ks) = mset ks"
  by (induction ks) (auto simp: canonical_then_inserted_def)

lemma sorted_map_const: "\<forall>x\<in>set xs. f x = (c::nat) \<Longrightarrow> sorted (map f xs)"
  by (induction xs) auto

lemma sorted_canonical_then_inserted:
  "sorted (map season_order_get (canonical_then_inserted ks))"
proof -
  have 1: "sorted (map season_order_get [k\<leftarrow>ks. k = ''1''])"
    by (rule sorted_map_const [of _ _ 0]) (simp add: season_order_get_cases)
  have 2: "sorted (map season_order_get [k\<leftarrow>ks. k = ''4''])"
    by (rule sorted_map_const [of _ _ 1]) (simp add: season_order_get_cases)
  have 3: "sorted (map season_order_get [k\<leftarrow>ks. k = ''7''])"
    by (rule sorted_map_const [of _ _ 2]) (simp add: season_order_get_cases)
  have 4: "sorted (map season_order_get [k\<leftarrow>ks. k = ''10''])"
    by (rule sorted_map_const [of _ _ 3]) (simp add: season_order_get_cases)
  have 5: "sorted (map season_order_get [k\<leftarrow>ks. k \<notin> {''1'', ''4'', ''7'', ''10''}])"
    by (rule sorted_map_const [of _ _ 99]) (simp add: season_order_get_cases)
  show ?thesis
    unfolding canonical_then_inserted_def map_append sorted_append
    using 1 2 3 4 5 by (auto simp: season_order_get_cases)
qed

lemma stable_canonical_then_inserted:
  "filter (\<lambda>x. season_order_get k = season_order_get x) (canonical_then_inserted ks)
   = filter (\<lambda>x. season_order_get k = season_order_get x) ks"
proof -
  consider "k = ''1''" | "k = ''4''" | "k = ''7''" | "k = ''10''"
    | "k \<notin> {''1'', ''4'', ''7'', ''10''}" by auto
  then show ?thesis
  proof cases
    case 1
    then show ?thesis
      by (auto simp: canonical_then_inserted_def season_order_get_cases intro: filter_cong)
  next
    case 2
    then show ?thesis
      by (auto simp: canonical_then_inserted_def season_order_get_cases intro: filter_cong)
  next
    case 3
    then show ?thesis
      by (auto simp: canonical_then_inserted_def season_order_get_cases intro: filter_cong)
  next
    case 4
    then show ?thesis
      by (auto simp: canonical_then_inserted_def season_order_get_cases intro: filter_cong)
  next
    case 5
    then show ?thesis
      by (auto simp: canonical_then_inserted_def season_order_get_cases intro: filter_cong)
  qed
qed

lemma sort_key_season_order:
  "sort_key season_order_get ks = canonical_then_inserted ks"
  by (rule properties_for_sort_key)
     (simp_all add: mset_canonical_then_inserted stable_canonical_then_inserted
        sorted_canonical_then_inserted)

lemma keys_sorted_seasons: "map fst (sorted_seasons d) = canonical_then_inserted (map fst d)"
  by (simp add: sorted_seasons_def comp_def sort_key_season_order)

lemma keys_sorted_result: "map fst (sorted_result result) = sort (map fst result)"
  by (simp add: sorted_result_def comp_def)

lemma sorted_result_elem:
  assumes "dict_like result" and "(year, d') \<in> set (sorted_result result)"
  shows "\<exists>d. (year, d) \<in> set result \<and> distinct (map fst d) \<and> d' = sorted_seasons d"
proof -
  from assms(2) have y: "year \<in> fst ` set result"
    and d': "d' = sorted_seasons (the (map_of result year))"
    by (auto simp: sorted_result_def)
  from y obtain d where "(year, d) \<in> set result" by auto
  with assms(1) have "map_of result year = Some d" "distinct (map fst d)" "(year, d) \<in> set result"
    by (auto simp: dict_like_def)
  with d' show ?thesis by auto
qed

subsection \<open>Processing order\<close>

lemma set_entries: "set (entries files) = {e. \<exists>f\<in>set files. entry_of f = Some e}"
  by (induction files) (auto simp: entries_def split: option.splits)

lemma set_keys_store: "fst ` set (store year k items result) = insert year (fst ` set result)"
proof -
  have "set (map fst (store year k items result))
        = set (if year \<in> set (map fst result) then map fst result else map fst result @ [year])"
    by (simp only: keys_store)
  also have "\<dots> = insert year (set (map fst result))" by auto
  finally show ?thesis by simp
qed

lemma keys_fold:
  "fst ` set (fold (\<lambda>f. store_entry (entry_of f)) files result) =
     fst ` set result \<union> (fst \<circ> fst) ` set (entries files)"
proof (induction files arbitrary: result)
  case Nil
  show ?case by (simp add: entries_def)
next
  case (Cons f files)
  show ?case
  proof (cases "entry_of f")
    case None
    then show ?thesis using Cons.IH [of result] by (simp add: store_entry_def entries_def)
  next
    case (Some e)
    obtain year k items where e: "e = ((year, k), items)" by (metis prod.exhaust)
    with Some show ?thesis
      using Cons.IH [of "store year k items result"]
      by (simp add: store_entry_def entries_def set_keys_store)
  qed
qed

lemma lookup2_fold_present:
  assumes "f \<in> set files" and "entry_of f = Some ((year, k), items)"
    and "\<forall>g\<in>set files. \<forall>items'. entry_of g = Some ((year, k), items') \<longrightarrow> items' = items"
  shows "lookup2 (fold (\<lambda>f. store_entry (entry_of f)) files result) year k = Some items"
proof -
  from assms(1,2) have "\<exists>g\<in>set files. \<exists>items'. entry_of g = Some ((year, k), items')" by blast
  from split_list_last_prop [OF this] obtain pre g post where
    files: "files = pre @ g # post" and g: "\<exists>items'. entry_of g = Some ((year, k), items')"
    and post: "\<forall>h\<in>set post. \<not> (\<exists>items'. entry_of h = Some ((year, k), items'))"
    by blast
  from g obtain items' where g': "entry_of g = Some ((year, k), items')" ..
  with assms(3) files have "items' = items" by auto
  with g' have "entry_of g = Some ((year, k), items)" by simp
  moreover from post have "\<forall>h\<in>set post. \<forall>items'. entry_of h \<noteq> Some ((year, k), items')" by blast
  ultimately show ?thesis unfolding files by (rule lookup2_fold_last)
qed

lemma sorted_seasons_cong:
  assumes "distinct (map fst d1)" and "distinct (map fst d2)" and "map_of d1 = map_of d2"
    and "inj_on season_order_get (set (map fst d1))"
  shows "sorted_seasons d1 = sorted_seasons d2"
proof -
  from assms(3) have "dom (map_of d1) = dom (map_of d2)" by simp
  then have keys: "set (map fst d1) = set (map fst d2)" by (simp add: dom_map_of_conv_image_fst)
  let ?s1 = "sort_key season_order_get (map fst d1)"
  let ?s2 = "sort_key season_order_get (map fst d2)"
  have "?s1 = ?s2"
  proof (rule map_sorted_distinct_set_unique [of season_order_get])
    show "inj_on season_order_get (set ?s1 \<union> set ?s2)" using assms(4) keys by simp
    show "sorted (map season_order_get ?s1)" "sorted (map season_order_get ?s2)" by simp_all
    show "distinct (map season_order_get ?s1)"
      using assms(1,4) by (simp add: distinct_map)
    show "distinct (map season_order_get ?s2)"
      using assms(2,4) keys by (simp add: distinct_map)
    show "set ?s1 = set ?s2" using keys by simp
  qed
  then show ?thesis by (simp add: sorted_seasons_def assms(3))
qed

lemma sorted_result_cong:
  assumes "dict_like r1" and "dict_like r2" and "fst ` set r1 = fst ` set r2"
    and "\<And>year k. lookup2 r1 year k = lookup2 r2 year k"
    and "\<And>year d. (year, d) \<in> set r1 \<Longrightarrow> inj_on season_order_get (set (map fst d))"
  shows "sorted_result r1 = sorted_result r2"
proof -
  have years: "sort (map fst r1) = sort (map fst r2)"
    using assms(1,2,3) by (intro sorted_distinct_set_unique) (simp_all add: dict_like_def)
  have "sorted_seasons (the (map_of r1 year)) = sorted_seasons (the (map_of r2 year))"
    if "year \<in> fst ` set r1" for year
  proof -
    from that obtain d1 where d1: "(year, d1) \<in> set r1" by auto
    from that assms(3) obtain d2 where d2: "(year, d2) \<in> set r2" by auto
    from d1 assms(1) have m1: "map_of r1 year = Some d1" and dd1: "distinct (map fst d1)"
      by (auto simp: dict_like_def)
    from d2 assms(2) have m2: "map_of r2 year = Some d2" and dd2: "distinct (map fst d2)"
      by (auto simp: dict_like_def)
    have "map_of d1 k = map_of d2 k" for k
      using assms(4) [of year k] m1 m2 by (simp add: lookup2_def)
    then have "map_of d1 = map_of d2" by (rule ext)
    from sorted_seasons_cong [OF dd1 dd2 this assms(5) [OF d1]] m1 m2 show ?thesis by simp
  qed
  then show ?thesis by (simp add: sorted_result_def years [symmetric])
qed


lemma printed_raises: "raises res \<Longrightarrow> printed res = None"
  by (cases res) (simp_all add: printed_def)

lemma order_independent_D:
  assumes "order_independent es" and "((year, k1), items1) \<in> set es"
    and "((year, k2), items2) \<in> set es"
  shows "if k1 = k2 then items1 = items2 else season_order_get k1 \<noteq> season_order_get k2"
proof -
  from assms(1) have "\<forall>e1\<in>set es. \<forall>e2\<in>set es.
        fst (fst e1) = fst (fst e2) \<longrightarrow>
          (if snd (fst e1) = snd (fst e2) then snd e1 = snd e2
           else season_order_get (snd (fst e1)) \<noteq> season_order_get (snd (fst e2)))"
    by (simp only: order_independent_def)
  from bspec [OF bspec [OF this assms(2)] assms(3)] show ?thesis by (simp split: if_splits)
qed

lemma order_independent_items:
  assumes "order_independent es" and "((year, k), items) \<in> set es"
    and "((year, k), items') \<in> set es"
  shows "items' = items"
  using order_independent_D [OF assms] by simp

lemma order_independent_rank:
  assumes "order_independent es" and "((year, k1), items1) \<in> set es"
    and "((year, k2), items2) \<in> set es" and "season_order_get k1 = season_order_get k2"
  shows "k1 = k2"
  using order_independent_D [OF assms(1,2,3)] assms(4) by (cases "k1 = k2") simp_all

lemma lookup2_fold_set:
  assumes "set files' = set files" and "order_independent (entries files)"
  shows "lookup2 (fold (\<lambda>f. store_entry (entry_of f)) files' []) year k
         = lookup2 (fold (\<lambda>f. store_entry (entry_of f)) files []) year k"
proof (cases "\<exists>f\<in>set files. \<exists>items. entry_of f = Some ((year, k), items)")
  case True
  then obtain f items where f: "f \<in> set files" and e: "entry_of f = Some ((year, k), items)"
    by blast
  have u: "items' = items" if "g \<in> set files" and "entry_of g = Some ((year, k), items')"
    for g items'
  proof -
    from f e have "((year, k), items) \<in> set (entries files)" by (auto simp: set_entries)
    moreover from that have "((year, k), items') \<in> set (entries files)"
      by (auto simp: set_entries)
    ultimately show ?thesis using assms(2) order_independent_items by blast
  qed
  have u1: "\<forall>g\<in>set files. \<forall>items'. entry_of g = Some ((year, k), items') \<longrightarrow> items' = items"
    using u by blast
  have u2: "\<forall>g\<in>set files'. \<forall>items'. entry_of g = Some ((year, k), items') \<longrightarrow> items' = items"
    using u1 assms(1) by simp
  from f assms(1) have f': "f \<in> set files'" by simp
  have "lookup2 (fold (\<lambda>f. store_entry (entry_of f)) files []) year k = Some items"
    using f e u1 by (rule lookup2_fold_present)
  moreover have "lookup2 (fold (\<lambda>f. store_entry (entry_of f)) files' []) year k = Some items"
    using f' e u2 by (rule lookup2_fold_present)
  ultimately show ?thesis by simp
next
  case False
  then have "\<forall>f\<in>set files. \<forall>items. entry_of f \<noteq> Some ((year, k), items)" by blast
  moreover from this assms(1)
  have "\<forall>f\<in>set files'. \<forall>items. entry_of f \<noteq> Some ((year, k), items)" by blast
  ultimately show ?thesis by (simp add: lookup2_fold_skip)
qed

lemma fold_rank_inj:
  assumes "order_independent (entries files)"
    and "(year, d) \<in> set (fold (\<lambda>f. store_entry (entry_of f)) files [])"
  shows "inj_on season_order_get (set (map fst d))"
proof (rule inj_onI)
  let ?r = "fold (\<lambda>f. store_entry (entry_of f)) files []"
  have dl: "dict_like ?r" by (simp add: dict_like_fold dict_like_Nil)
  with assms(2) have m: "map_of ?r year = Some d" and dd: "distinct (map fst d)"
    by (auto simp: dict_like_def)
  have src: "\<exists>items. ((year, k), items) \<in> set (entries files)" if "k \<in> set (map fst d)" for k
  proof -
    from that obtain items where "(k, items) \<in> set d" by auto
    with dd have "map_of d k = Some items" by simp
    with m have "lookup2 ?r year k = Some items" by (simp add: lookup2_def)
    from lookup2_fold_source [OF this] show ?thesis
      by (auto simp: lookup2_Nil set_entries)
  qed
  fix k1 k2
  assume "k1 \<in> set (map fst d)" and "k2 \<in> set (map fst d)"
    and eq: "season_order_get k1 = season_order_get k2"
  then obtain items1 items2 where "((year, k1), items1) \<in> set (entries files)"
    and "((year, k2), items2) \<in> set (entries files)"
    using src by blast
  from order_independent_rank [OF assms(1) this eq] show "k1 = k2" .
qed

lemma season_keys_store:
  "season_keys (store y k items result) year =
     (if year = y then insert_key k (season_keys result y) else season_keys result year)"
  by (auto simp: season_keys_def map_of_store update_keys insert_key_def split: option.splits)

lemma season_keys_fold:
  "season_keys (fold (\<lambda>f. store_entry (entry_of f)) files result) year =
     fold insert_key [snd (fst e). e \<leftarrow> entries files, fst (fst e) = year]
       (season_keys result year)"
proof (induction files arbitrary: result)
  case Nil
  show ?case by (simp add: entries_def)
next
  case (Cons f files)
  show ?case
  proof (cases "entry_of f")
    case None
    then show ?thesis using Cons.IH [of result] by (simp add: store_entry_def entries_def)
  next
    case (Some e)
    obtain y k items where e: "e = ((y, k), items)" by (metis prod.exhaust)
    with Some show ?thesis
      using Cons.IH [of "store y k items result"]
      by (simp add: store_entry_def entries_def season_keys_store)
  qed
qed

lemma season_keys_main_loop:
  assumes "main_loop files [] = Inr result" and "(year, d) \<in> set result"
  shows "map fst d = inserted_keys (entries files) year"
proof -
  from assms(1) have "\<not> raises (main_loop files [])" by simp
  from main_loop_fold [OF this] assms(1)
  have r: "result = fold (\<lambda>f. store_entry (entry_of f)) files []" by simp
  from assms(1) have "dict_like result" by (rule dict_like_main_loop) (rule dict_like_Nil)
  with assms(2) have "map_of result year = Some d" by (simp add: dict_like_def)
  then have "season_keys result year = map fst d" by (simp add: season_keys_def)
  moreover have "season_keys [] year = []" by (simp add: season_keys_def)
  then have "season_keys result year = inserted_keys (entries files) year"
    unfolding r season_keys_fold inserted_keys_def by simp
  ultimately show ?thesis by simp
qed

section \<open>The claims\<close>

subsection \<open>Which items are emitted\<close>

text \<open>
  Claim C1. For every input file and every item of its item list, a CompactItem for the
  item appears in the output if and only if the item's status is not in the skip set
  and the item has a truthy \<^verbatim>\<open>bgm_id\<close>. For one item: whenever the transform returns, it
  emits the item's CompactItem if the item is included and nothing otherwise. For the
  item loop: whenever it returns, its list is the CompactItems of the included items, in
  order; and it does return on well-formed items. For the run: the list found in the
  printed document under the file's key is that list, when no later file stores under
  the same key.
\<close>

theorem item_included_iff:
  "(compact_item x = Inr res \<longrightarrow> res = (if included x then Some (compact_of x) else None))
   \<and> (collect_items xs [] = Inr items \<longrightarrow> items = map compact_of (filter included xs))
   \<and> ((\<forall>x\<in>set xs. well_formed_item x) \<longrightarrow>
        collect_items xs [] = Inr (map compact_of (filter included xs)))
   \<and> (main (pre @ Parsed data # post) = Inr doc
        \<and> get data ''items'' (JList []) = Inr (JList xs)
        \<and> file_entry (Parsed data) = Inr (Some ((year, k), items'))
        \<and> (\<forall>g\<in>set post. \<forall>its. file_entry g \<noteq> Inr (Some ((year, k), its)))
        \<longrightarrow> lookup2 doc year k = Some (map compact_of (filter included xs)))"
proof (intro conjI impI)
  assume "compact_item x = Inr res"
  then show "res = (if included x then Some (compact_of x) else None)"
    by (rule compact_item_Inr)
next
  assume "collect_items xs [] = Inr items"
  from collect_items_Inr [OF this] show "items = map compact_of (filter included xs)"
    by simp
next
  assume "\<forall>x\<in>set xs. well_formed_item x"
  from collect_items_well_formed [OF this, of "[]"]
  show "collect_items xs [] = Inr (map compact_of (filter included xs))"
    by simp
next
  assume a: "main (pre @ Parsed data # post) = Inr doc
        \<and> get data ''items'' (JList []) = Inr (JList xs)
        \<and> file_entry (Parsed data) = Inr (Some ((year, k), items'))
        \<and> (\<forall>g\<in>set post. \<forall>its. file_entry g \<noteq> Inr (Some ((year, k), its)))"
  then have "collect_items xs [] = Inr items'"
    using file_entry_items by blast
  from collect_items_Inr [OF this] have "items' = map compact_of (filter included xs)"
    by simp
  moreover from a have "lookup2 doc year k = Some items'"
    using main_lookup_last by blast
  ultimately show "lookup2 doc year k = Some (map compact_of (filter included xs))"
    by simp
qed

theorem item_included_iff_witness:
  "compact_item ex_item_ok = Inr (Some ex_compact) \<and> included ex_item_ok
   \<and> compact_item ex_item_error = Inr None \<and> \<not> included ex_item_error
   \<and> compact_item ex_item_zero = Inr None \<and> \<not> included ex_item_zero
   \<and> well_formed_item ex_item_ok \<and> well_formed_item ex_item_error
   \<and> well_formed_item ex_item_zero
   \<and> collect_items [ex_item_ok, ex_item_error, ex_item_zero] [] = Inr [ex_compact]
   \<and> main ([] @ Parsed ex_data # []) = Inr ex_doc
   \<and> get ex_data ''items'' (JList []) = Inr (JList [ex_item_ok, ex_item_error, ex_item_zero])
   \<and> file_entry (Parsed ex_data) = Inr (Some ((''2026'', ''1''), [ex_compact]))
   \<and> lookup2 ex_doc ''2026'' ''1'' = Some [ex_compact]"
  using item_included_iff [of ex_item_ok "Some ex_compact"
      "[ex_item_ok, ex_item_error, ex_item_zero]" "[ex_compact]" "[]" ex_data "[]" ex_doc
      "''2026''" "''1''" "[ex_compact]"]
  by (simp add: ex_defs eval_defs spec_defs lookup2_def)

subsection \<open>The subscript after the guard\<close>

text \<open>
  Claim C9. The lookup \<^verbatim>\<open>item["bgm_id"]\<close> never fails: no item and no run raises
  \<^verbatim>\<open>KeyError\<close>, the only exception the subscript of a dict can raise. Every emitted
  CompactItem carries the item's \<^verbatim>\<open>bgm_id\<close>, which is truthy, and so does every CompactItem
  of a printed document.
\<close>

theorem bgm_id_lookup_never_fails:
  "compact_item item \<noteq> Inl KeyError
   \<and> main files \<noteq> Inl KeyError
   \<and> (compact_item item = Inr (Some c) \<longrightarrow> id c = item_field item ''bgm_id'' \<and> truthy (id c))
   \<and> (main files = Inr doc \<longrightarrow> (\<forall>c\<in>result_items doc. truthy (id c)))"
proof (intro conjI impI ballI)
  show "compact_item item \<noteq> Inl KeyError" by (rule compact_item_not_KeyError)
  show "main files \<noteq> Inl KeyError"
    using main_Inl [of files KeyError] file_entry_not_KeyError by blast
next
  assume "compact_item item = Inr (Some c)"
  from compact_item_Some_id [OF this]
  show "id c = item_field item ''bgm_id''" and "truthy (id c)" by blast+
next
  fix c assume "main files = Inr doc" and "c \<in> result_items doc"
  then show "truthy (id c)" by (rule main_items_truthy)
qed

theorem bgm_id_lookup_never_fails_witness:
  "compact_item ex_item_ok = Inr (Some ex_compact)
   \<and> main [Parsed ex_data] = Inr ex_doc
   \<and> result_items ex_doc = {ex_compact} \<and> truthy (id ex_compact)"
  using bgm_id_lookup_never_fails [of ex_item_ok "[Parsed ex_data]" ex_compact ex_doc]
  by (simp add: ex_defs eval_defs result_items_def)

subsection \<open>A \<^verbatim>\<open>mal\<close> field that is not an object\<close>

text \<open>
  Claim C10. The per-item transform is total only when the item's \<^verbatim>\<open>mal\<close> field is absent
  or an object: an item is emitted only if it is an object whose \<^verbatim>\<open>mal\<close> is absent or an
  object, and an item that passes both guards with any other \<^verbatim>\<open>mal\<close>, JSON null among
  them, raises \<^verbatim>\<open>AttributeError\<close>, which ends the item loop once the items before it have
  been processed.
\<close>

theorem mal_not_object_raises:
  "(compact_item x = Inr (Some c) \<longrightarrow> is_dict x \<and> is_dict (mal_of x))
   \<and> (is_dict item \<and> hashable (item_field item ''status'') \<and> included item
        \<and> \<not> is_dict (mal_of item) \<longrightarrow>
      compact_item item = Inl AttributeError
      \<and> ((\<forall>x\<in>set pre. \<not> raises (compact_item x)) \<longrightarrow>
           collect_items (pre @ item # post) [] = Inl AttributeError))"
proof (intro conjI impI)
  assume a: "compact_item x = Inr (Some c)"
  show "is_dict x" using a by (cases "is_dict x") (simp_all add: compact_item_def get_not_dict)
  then show "is_dict (mal_of x)" using a
    by (cases "is_dict (mal_of x)")
       (auto simp: compact_item_def get_dict_JNull get_mal get_not_dict
          split: sum.splits if_splits)
next
  assume a: "is_dict item \<and> hashable (item_field item ''status'') \<and> included item
        \<and> \<not> is_dict (mal_of item)"
  then show e: "compact_item item = Inl AttributeError"
    by (simp add: compact_item_def get_dict_JNull get_mal get_not_dict
        in_SKIP_STATUS_hashable included_def)
  assume "\<forall>x\<in>set pre. \<not> raises (compact_item x)"
  from collect_items_first_error [OF this e]
  show "collect_items (pre @ item # post) [] = Inl AttributeError" .
qed

theorem mal_not_object_raises_witness:
  "is_dict ex_item_mal_null \<and> hashable (item_field ex_item_mal_null ''status'')
   \<and> included ex_item_mal_null \<and> mal_of ex_item_mal_null = JNull
   \<and> \<not> is_dict (mal_of ex_item_mal_null)
   \<and> compact_item ex_item_mal_null = Inl AttributeError
   \<and> \<not> raises (compact_item ex_item_ok)
   \<and> collect_items ([ex_item_ok] @ ex_item_mal_null # []) [] = Inl AttributeError
   \<and> main [Parsed ex_data_mal_null] = Inl AttributeError"
  using mal_not_object_raises [of ex_item_ok ex_compact ex_item_mal_null "[ex_item_ok]" "[]"]
  by (simp add: ex_defs eval_defs spec_defs)

subsection \<open>The season and rating tables\<close>

text \<open>
  Claim C4. The season name is mapped winter to 1, spring to 4, summer to 7 and fall to
  10, and any other season name is its own code; the key under which a file is stored is
  the code of the season name that the pattern captured. The rating is mapped general to
  gnr, kids to kids and r18 to r18, and any other rating, null among them, is passed
  through; the \<^verbatim>\<open>r\<close> field of every emitted CompactItem is the code of the item's rating.
\<close>

theorem season_and_rating_codes:
  "SEASON_MAP_get ''winter'' = ''1'' \<and> SEASON_MAP_get ''spring'' = ''4''
   \<and> SEASON_MAP_get ''summer'' = ''7'' \<and> SEASON_MAP_get ''fall'' = ''10''
   \<and> (name \<notin> {''winter'', ''spring'', ''summer'', ''fall''} \<longrightarrow> SEASON_MAP_get name = name)
   \<and> RATING_MAP_get (JStr ''general'') = Inr (JStr ''gnr'')
   \<and> RATING_MAP_get (JStr ''kids'') = Inr (JStr ''kids'')
   \<and> RATING_MAP_get (JStr ''r18'') = Inr (JStr ''r18'')
   \<and> RATING_MAP_get JNull = Inr JNull
   \<and> (hashable rating \<and> rating \<notin> {JStr ''general'', JStr ''kids'', JStr ''r18''} \<longrightarrow>
        RATING_MAP_get rating = Inr rating)
   \<and> (compact_item item = Inr (Some c) \<longrightarrow>
        r c = rating_code (item_field (mal_of item) ''rating''))
   \<and> (file_entry (Parsed data) = Inr (Some ((year, k), items)) \<longrightarrow>
        (\<exists>s season_name. get data ''season'' (JStr []) = Inr (JStr s)
           \<and> match_groups s = Some (year, season_name) \<and> k = season_code season_name))"
proof (intro conjI impI)
  show "SEASON_MAP_get ''winter'' = ''1''" "SEASON_MAP_get ''spring'' = ''4''"
    "SEASON_MAP_get ''summer'' = ''7''" "SEASON_MAP_get ''fall'' = ''10''"
    by (simp_all add: SEASON_MAP_get_def SEASON_MAP_def)
  show "RATING_MAP_get (JStr ''general'') = Inr (JStr ''gnr'')"
    "RATING_MAP_get (JStr ''kids'') = Inr (JStr ''kids'')"
    "RATING_MAP_get (JStr ''r18'') = Inr (JStr ''r18'')"
    "RATING_MAP_get JNull = Inr JNull"
    by (simp_all add: RATING_MAP_get_def RATING_MAP_def)
next
  assume "name \<notin> {''winter'', ''spring'', ''summer'', ''fall''}"
  then show "SEASON_MAP_get name = name"
    by (simp add: SEASON_MAP_get_def SEASON_MAP_def)
next
  assume "hashable rating \<and> rating \<notin> {JStr ''general'', JStr ''kids'', JStr ''r18''}"
  then show "RATING_MAP_get rating = Inr rating"
    by (simp add: RATING_MAP_get_hashable rating_code_def)
next
  assume "compact_item item = Inr (Some c)"
  from compact_item_Inr [OF this] show "r c = rating_code (item_field (mal_of item) ''rating'')"
    by (simp add: compact_of_def split: if_splits)
next
  assume "file_entry (Parsed data) = Inr (Some ((year, k), items))"
  then show "\<exists>s season_name. get data ''season'' (JStr []) = Inr (JStr s)
           \<and> match_groups s = Some (year, season_name) \<and> k = season_code season_name"
    by (rule file_entry_season)
qed

theorem season_and_rating_codes_witness:
  "''autumn'' \<notin> {''winter'', ''spring'', ''summer'', ''fall''}
   \<and> SEASON_MAP_get ''autumn'' = ''autumn''
   \<and> hashable (JStr ''pg_13'')
   \<and> JStr ''pg_13'' \<notin> {JStr ''general'', JStr ''kids'', JStr ''r18''}
   \<and> RATING_MAP_get (JStr ''pg_13'') = Inr (JStr ''pg_13'')
   \<and> compact_item ex_item_pg = Inr (Some \<lparr>id = JStr ''x1'', m = JNull, r = JStr ''pg_13''\<rparr>)
   \<and> file_entry (Parsed ex_data_autumn)
       = Inr (Some ((''2024'', ''autumn''), [\<lparr>id = JStr ''x1'', m = JNull, r = JStr ''pg_13''\<rparr>]))
   \<and> main [Parsed ex_data_autumn]
       = Inr [(''2024'', [(''autumn'', [\<lparr>id = JStr ''x1'', m = JNull, r = JStr ''pg_13''\<rparr>])])]
   \<and> main [Parsed ex_data] = Inr ex_doc"
  using season_and_rating_codes [of "''autumn''" "JStr ''pg_13''" ex_item_pg
      "\<lparr>id = JStr ''x1'', m = JNull, r = JStr ''pg_13''\<rparr>" ex_data_autumn "''2024''" "''autumn''"
      "[\<lparr>id = JStr ''x1'', m = JNull, r = JStr ''pg_13''\<rparr>]"]
  by (simp add: ex_defs eval_defs)

subsection \<open>Two files for one season\<close>

text \<open>
  Claim C6. When two input files resolve to the same year and season code, the list of
  the file processed later replaces the list of the earlier one: storing under a key that
  is present overwrites its list and changes no other key, it raises nothing, and the
  printed document holds the later file's list under the key, whatever the earlier file
  stored there.
\<close>

theorem last_processed_wins:
  "(file_entry f2 = Inr (Some ((year, k), items2)) \<longrightarrow>
      process_file f2 result = Inr (store year k items2 result)
      \<and> lookup2 (store year k items2 result) year k = Some items2
      \<and> (\<forall>year' k'. (year', k') \<noteq> (year, k) \<longrightarrow>
            lookup2 (store year k items2 result) year' k' = lookup2 result year' k'))
   \<and> (file_entry f1 = Inr (Some ((year, k), items1))
        \<and> file_entry f2 = Inr (Some ((year, k), items2))
        \<and> (\<forall>g\<in>set post. \<forall>its. file_entry g \<noteq> Inr (Some ((year, k), its)))
        \<and> (\<forall>g\<in>set (pre @ mid @ post). \<not> raises (file_entry g)) \<longrightarrow>
      (\<exists>doc. main (pre @ f1 # mid @ f2 # post) = Inr doc \<and> lookup2 doc year k = Some items2))"
proof (intro conjI impI allI)
  assume a: "file_entry f2 = Inr (Some ((year, k), items2))"
  then show "process_file f2 result = Inr (store year k items2 result)"
    by (rule process_file_Some)
  show "lookup2 (store year k items2 result) year k = Some items2"
    by (simp add: lookup2_store)
  fix year' k' assume "(year', k') \<noteq> (year, k)"
  then show "lookup2 (store year k items2 result) year' k' = lookup2 result year' k'"
    by (auto simp: lookup2_store)
next
  assume a: "file_entry f1 = Inr (Some ((year, k), items1))
        \<and> file_entry f2 = Inr (Some ((year, k), items2))
        \<and> (\<forall>g\<in>set post. \<forall>its. file_entry g \<noteq> Inr (Some ((year, k), its)))
        \<and> (\<forall>g\<in>set (pre @ mid @ post). \<not> raises (file_entry g))"
  let ?files = "pre @ f1 # mid @ f2 # post"
  from a have f1: "file_entry f1 = Inr (Some ((year, k), items1))" by (rule conjunct1)
  from a have f2: "file_entry f2 = Inr (Some ((year, k), items2))" by simp
  from a have later: "\<forall>g\<in>set post. \<forall>its. file_entry g \<noteq> Inr (Some ((year, k), its))" by simp
  from a have others: "\<forall>g\<in>set (pre @ mid @ post). \<not> raises (file_entry g)" by simp
  have "\<not> raises (file_entry g)" if "g \<in> set ?files" for g
  proof -
    from that consider "g = f1" | "g = f2" | "g \<in> set (pre @ mid @ post)" by auto
    then show ?thesis using f1 f2 others by cases simp_all
  qed
  then have "\<not> raises (main ?files)" using main_raises [of ?files] by blast
  then obtain doc where doc: "main ?files = Inr doc" by (cases "main ?files") simp_all
  then have "main ((pre @ f1 # mid) @ f2 # post) = Inr doc" by simp
  from main_lookup_last [OF this f2 later] have "lookup2 doc year k = Some items2" .
  with doc show "\<exists>doc. main ?files = Inr doc \<and> lookup2 doc year k = Some items2" by blast
qed

theorem last_processed_wins_witness:
  "file_entry (Parsed ex_data) = Inr (Some ((''2026'', ''1''), [ex_compact]))
   \<and> file_entry (Parsed ex_data_b) = Inr (Some ((''2026'', ''1''), [ex_compact_b]))
   \<and> main ([] @ Parsed ex_data # [] @ Parsed ex_data_b # []) = Inr [(''2026'', [(''1'', [ex_compact_b])])]
   \<and> lookup2 [(''2026'', [(''1'', [ex_compact_b])])] ''2026'' ''1'' = Some [ex_compact_b]
   \<and> process_file (Parsed ex_data_b) [(''2026'', [(''1'', [ex_compact])])]
       = Inr [(''2026'', [(''1'', [ex_compact_b])])]"
  using last_processed_wins [of "Parsed ex_data_b" "''2026''" "''1''" "[ex_compact_b]"
      "[(''2026'', [(''1'', [ex_compact])])]" "Parsed ex_data" "[ex_compact]" "[]" "[]" "[]"]
  by (simp add: ex_defs eval_defs lookup2_def)

subsection \<open>A file that is not JSON\<close>

text \<open>
  Claim C7. A file that is not valid JSON raises the parse error, which nothing catches:
  a run over files of which one is not valid JSON always ends in an exception and prints
  no document, and when the files processed before the first such file are processed
  without an exception the run ends in the parse error, with nothing printed for the
  files already processed.
\<close>

theorem malformed_file_aborts_run:
  "process_file NotJSON result = Inl JSONDecodeError
   \<and> (NotJSON \<in> set files \<longrightarrow> raises (main files))
   \<and> ((\<forall>f\<in>set pre. \<not> raises (file_entry f)) \<longrightarrow>
        main (pre @ NotJSON # post) = Inl JSONDecodeError)"
proof (intro conjI impI)
  show "process_file NotJSON result = Inl JSONDecodeError"
    by (simp add: process_file_def)
next
  assume "NotJSON \<in> set files"
  then have "\<exists>f\<in>set files. raises (file_entry f)"
    using file_entry_NotJSON by (intro bexI [of _ NotJSON]) simp_all
  then show "raises (main files)" by (simp add: main_raises)
next
  assume "\<forall>f\<in>set pre. \<not> raises (file_entry f)"
  from main_first_error [OF this file_entry_NotJSON]
  show "main (pre @ NotJSON # post) = Inl JSONDecodeError" .
qed

theorem malformed_file_aborts_run_witness:
  "NotJSON \<in> set [Parsed ex_data, NotJSON, Parsed ex_data_b]
   \<and> raises (main [Parsed ex_data, NotJSON, Parsed ex_data_b])
   \<and> \<not> raises (file_entry (Parsed ex_data))
   \<and> main ([Parsed ex_data] @ NotJSON # [Parsed ex_data_b]) = Inl JSONDecodeError
   \<and> main [Parsed ex_data] = Inr ex_doc"
  using malformed_file_aborts_run [of "[]" "[Parsed ex_data, NotJSON, Parsed ex_data_b]"
      "[Parsed ex_data]" "[Parsed ex_data_b]"]
  by (simp add: ex_defs eval_defs)

subsection \<open>A season without items\<close>

text \<open>
  Claim C8. A file whose season matches stores an entry under its year and season code
  even when it has no \<^verbatim>\<open>items\<close> key, which is read as the empty list, or when every item
  is skipped: the entry is the empty list, and the printed document has the key with an
  empty list, unless a later file stores under the same key.
\<close>

theorem empty_season_is_stored:
  "(map_of kvs ''items'' = None \<longrightarrow> get (JDict kvs) ''items'' (JList []) = Inr (JList []))
   \<and> (get data ''season'' (JStr []) = Inr (JStr s)
        \<and> match_groups s = Some (year, season_name)
        \<and> get data ''items'' (JList []) = Inr (JList xs)
        \<and> (\<forall>x\<in>set xs. compact_item x = Inr None) \<longrightarrow>
      file_entry (Parsed data) = Inr (Some ((year, season_code season_name), []))
      \<and> process_file (Parsed data) result = Inr (store year (season_code season_name) [] result)
      \<and> lookup2 (store year (season_code season_name) [] result) year (season_code season_name)
          = Some []
      \<and> ((\<forall>g\<in>set post. \<forall>its. file_entry g \<noteq> Inr (Some ((year, season_code season_name), its)))
           \<and> main (pre @ Parsed data # post) = Inr doc \<longrightarrow>
          (\<exists>d. (year, d) \<in> set doc \<and> (season_code season_name, []) \<in> set d)))"
proof (intro conjI impI)
  assume "map_of kvs ''items'' = None"
  then show "get (JDict kvs) ''items'' (JList []) = Inr (JList [])"
    by (simp add: get_def)
next
  assume a: "get data ''season'' (JStr []) = Inr (JStr s)
        \<and> match_groups s = Some (year, season_name)
        \<and> get data ''items'' (JList []) = Inr (JList xs)
        \<and> (\<forall>x\<in>set xs. compact_item x = Inr None)"
  then have "collect_items xs [] = Inr []" by (simp add: collect_items_all_skipped)
  with a show e: "file_entry (Parsed data) = Inr (Some ((year, season_code season_name), []))"
    by (simp add: file_entry_def re_match_def iterate_def SEASON_MAP_get_code)
  then show "process_file (Parsed data) result = Inr (store year (season_code season_name) [] result)"
    by (rule process_file_Some)
  show "lookup2 (store year (season_code season_name) [] result) year (season_code season_name)
          = Some []"
    by (simp add: lookup2_store)
  assume "(\<forall>g\<in>set post. \<forall>its. file_entry g \<noteq> Inr (Some ((year, season_code season_name), its)))
           \<and> main (pre @ Parsed data # post) = Inr doc"
  then have "lookup2 doc year (season_code season_name) = Some []"
    using main_lookup_last [OF _ e, of pre post doc] by simp
  then show "\<exists>d. (year, d) \<in> set doc \<and> (season_code season_name, []) \<in> set d"
    by (rule lookup2_SomeD)
qed

theorem empty_season_is_stored_witness:
  "map_of [(''season'', JStr ''2025-fall'')] ''items'' = None
   \<and> get ex_data_no_items ''items'' (JList []) = Inr (JList [])
   \<and> main [Parsed ex_data_no_items] = Inr [(''2025'', [(''10'', [])])]
   \<and> get ex_data_filtered ''season'' (JStr []) = Inr (JStr ''2026-winter'')
   \<and> match_groups ''2026-winter'' = Some (''2026'', ''winter'')
   \<and> get ex_data_filtered ''items'' (JList []) = Inr (JList [ex_item_error, ex_item_zero])
   \<and> compact_item ex_item_error = Inr None \<and> compact_item ex_item_zero = Inr None
   \<and> file_entry (Parsed ex_data_filtered) = Inr (Some ((''2026'', ''1''), []))
   \<and> main ([] @ Parsed ex_data_filtered # []) = Inr [(''2026'', [(''1'', [])])]
   \<and> (''2026'', [(''1'', [])]) \<in> set [(''2026'', [(''1'', [])])]"
  using empty_season_is_stored [of "[(''season'', JStr ''2025-fall'')]" ex_data_filtered
      "''2026-winter''" "''2026''" "''winter''" "[ex_item_error, ex_item_zero]" "[]" "[]" "[]"
      "[(''2026'', [(''1'', [])])]"]
  by (simp add: ex_defs eval_defs season_code_def)

subsection \<open>The season pattern\<close>

text \<open>
  Claim C2, as the specification states it, fails: a file contributes whenever its season
  starts with four digits, a hyphen and a word character, whatever follows. The season
  \<^verbatim>\<open>2026-winter!\<close> does not match the anchored pattern, and the file is stored under
  year 2026 and season code 1.
\<close>

theorem anchored_pattern_counterexample:
  "\<not> spec_season_pattern ''2026-winter!''
   \<and> get ex_data_trailing ''season'' (JStr []) = Inr (JStr ''2026-winter!'')
   \<and> file_entry (Parsed ex_data_trailing) = Inr (Some ((''2026'', ''1''), [ex_compact]))
   \<and> main [Parsed ex_data_trailing] = Inr ex_doc"
  by (simp add: ex_defs eval_defs list_all_iff)


text \<open>
  Claim C2, amended. A file contributes if and only if its season, the empty string when
  absent, has a prefix that matches: four digits, a hyphen and at least one word
  character. The year is the four digits, the season name is the longest run of word
  characters after the hyphen, and the rest of the string is ignored. When no prefix
  matches the file is skipped: the result is unchanged and nothing is raised. When one
  matches, the file stores a list under the year and the code of the season name, and
  it raises nothing when its items are well-formed. A season that matches the anchored
  pattern of the specification matches with the same year and name.
\<close>

theorem season_prefix_match:
  "(get data ''season'' (JStr []) = Inr (JStr s) \<and> match_groups s = None \<longrightarrow>
      file_entry (Parsed data) = Inr None \<and> process_file (Parsed data) result = Inr result)
   \<and> (get data ''season'' (JStr []) = Inr (JStr s) \<and> match_groups s = Some (year, name)
        \<and> \<not> raises (file_entry (Parsed data)) \<longrightarrow>
      (\<exists>items. process_file (Parsed data) result
                 = Inr (store year (season_code name) items result)
         \<and> lookup2 (store year (season_code name) items result) year (season_code name)
             = Some items))
   \<and> (get data ''season'' (JStr []) = Inr (JStr s)
        \<and> get data ''items'' (JList []) = Inr (JList xs)
        \<and> (\<forall>x\<in>set xs. well_formed_item x) \<longrightarrow>
      \<not> raises (file_entry (Parsed data)))
   \<and> (match_groups s = Some (year, name) \<longleftrightarrow>
        (\<exists>rest. s = year @ ''-'' @ name @ rest \<and> length year = 4 \<and> list_all digit_char year
           \<and> name \<noteq> [] \<and> list_all word_char name \<and> (rest = [] \<or> \<not> word_char (hd rest))))
   \<and> (spec_season_pattern s \<longleftrightarrow>
        (\<exists>year name. match_groups s = Some (year, name) \<and> s = year @ ''-'' @ name))
   \<and> (map_of kvs ''season'' = None \<longrightarrow> process_file (Parsed (JDict kvs)) result = Inr result)"
proof (intro conjI impI)
  assume a: "get data ''season'' (JStr []) = Inr (JStr s) \<and> match_groups s = None"
  then show e: "file_entry (Parsed data) = Inr None"
    using file_entry_no_match by blast
  then show "process_file (Parsed data) result = Inr result"
    by (simp add: process_file_entry store_entry_def)
next
  assume a: "get data ''season'' (JStr []) = Inr (JStr s) \<and> match_groups s = Some (year, name)
        \<and> \<not> raises (file_entry (Parsed data))"
  then obtain items where "file_entry (Parsed data) = Inr (Some ((year, season_code name), items))"
    using file_entry_match by blast
  then have "process_file (Parsed data) result = Inr (store year (season_code name) items result)"
    by (rule process_file_Some)
  moreover have "lookup2 (store year (season_code name) items result) year (season_code name)
             = Some items"
    by (simp add: lookup2_store)
  ultimately show "\<exists>items. process_file (Parsed data) result
                 = Inr (store year (season_code name) items result)
         \<and> lookup2 (store year (season_code name) items result) year (season_code name)
             = Some items"
    by blast
next
  assume "get data ''season'' (JStr []) = Inr (JStr s)
        \<and> get data ''items'' (JList []) = Inr (JList xs)
        \<and> (\<forall>x\<in>set xs. well_formed_item x)"
  then show "\<not> raises (file_entry (Parsed data))"
    using file_entry_well_formed by blast
next
  show "match_groups s = Some (year, name) \<longleftrightarrow>
        (\<exists>rest. s = year @ ''-'' @ name @ rest \<and> length year = 4 \<and> list_all digit_char year
           \<and> name \<noteq> [] \<and> list_all word_char name \<and> (rest = [] \<or> \<not> word_char (hd rest)))"
    using match_groups_SomeD match_groups_SomeI by blast
next
  show "spec_season_pattern s \<longleftrightarrow>
        (\<exists>year name. match_groups s = Some (year, name) \<and> s = year @ ''-'' @ name)"
    by (rule spec_season_pattern_iff)
next
  assume "map_of kvs ''season'' = None"
  then have "get (JDict kvs) ''season'' (JStr []) = Inr (JStr [])"
    by (simp add: get_def)
  then have "file_entry (Parsed (JDict kvs)) = Inr None"
    by (rule file_entry_no_match) simp
  then show "process_file (Parsed (JDict kvs)) result = Inr result"
    by (simp add: process_file_entry store_entry_def)
qed

theorem season_prefix_match_witness:
  "get ex_data_not_a_season ''season'' (JStr []) = Inr (JStr ''not-a-season'')
   \<and> match_groups ''not-a-season'' = None
   \<and> process_file (Parsed ex_data_not_a_season) ex_doc = Inr ex_doc
   \<and> main [Parsed ex_data_not_a_season] = Inr []
   \<and> get ex_data_trailing ''season'' (JStr []) = Inr (JStr ''2026-winter!'')
   \<and> match_groups ''2026-winter!'' = Some (''2026'', ''winter'')
   \<and> ''2026-winter!'' = ''2026'' @ ''-'' @ ''winter'' @ ''!''
   \<and> \<not> raises (file_entry (Parsed ex_data_trailing))
   \<and> get ex_data_trailing ''items'' (JList []) = Inr (JList [ex_item_ok])
   \<and> well_formed_item ex_item_ok
   \<and> process_file (Parsed ex_data_trailing) [] = Inr ex_doc
   \<and> spec_season_pattern ''2026-winter''
   \<and> match_groups ''2026-winter'' = Some (''2026'', ''winter'')
   \<and> map_of [(''items'', JList [ex_item_ok])] ''season'' = None
   \<and> process_file (Parsed (JDict [(''items'', JList [ex_item_ok])])) ex_doc = Inr ex_doc"
  using season_prefix_match [of ex_data_not_a_season "''not-a-season''" ex_doc "''2026''" "''winter''"
      "[ex_item_ok]" "[(''items'', JList [ex_item_ok])]"]
    season_prefix_match [of ex_data_trailing "''2026-winter!''" "[]" "''2026''" "''winter''"
      "[ex_item_ok]" "[(''items'', JList [ex_item_ok])]"]
    season_prefix_match [of ex_data "''2026-winter''" "[]" "''2026''" "''winter''"
      "[ex_item_ok]" "[(''items'', JList [ex_item_ok])]"]
  by (simp add: ex_defs eval_defs spec_defs list_all_iff)

subsection \<open>The order of the keys\<close>

text \<open>
  Claim C5. In the printed document the year keys are in ascending lexicographic order,
  and the season keys of each year are those of \<^verbatim>\<open>result[year]\<close>: first the canonical codes
  1, 4, 7, 10, in this order, then every other code, in the order in which they were
  inserted into \<^verbatim>\<open>result[year]\<close>, each key with the list it had. The insertion order is
  the order in which the processed files first stored each key.
\<close>

theorem output_key_order:
  "main_loop files [] = Inr result \<longrightarrow>
     main files = Inr (sorted_result result)
     \<and> map fst (sorted_result result) = sort (map fst result)
     \<and> sorted_wrt (<) (map fst (sorted_result result))
     \<and> (\<forall>(year, d')\<in>set (sorted_result result).
           \<exists>d. (year, d) \<in> set result \<and> distinct (map fst d)
               \<and> map fst d = inserted_keys (entries files) year
               \<and> map fst d' = canonical_then_inserted (map fst d) \<and> map_of d' = map_of d)"
proof (intro impI conjI)
  assume a: "main_loop files [] = Inr result"
  then show "main files = Inr (sorted_result result)" by (simp add: main_def)
  show "map fst (sorted_result result) = sort (map fst result)" by (rule keys_sorted_result)
  from a have dl: "dict_like result" by (rule dict_like_main_loop) (rule dict_like_Nil)
  then have "distinct (map fst result)" by (simp add: dict_like_def)
  then show "sorted_wrt (<) (map fst (sorted_result result))"
    by (simp add: keys_sorted_result strict_sorted_iff)
  show "\<forall>(year, d')\<in>set (sorted_result result).
           \<exists>d. (year, d) \<in> set result \<and> distinct (map fst d)
               \<and> map fst d = inserted_keys (entries files) year
               \<and> map fst d' = canonical_then_inserted (map fst d) \<and> map_of d' = map_of d"
  proof (intro ballI, clarify)
    fix year d' assume "(year, d') \<in> set (sorted_result result)"
    from sorted_result_elem [OF dl this] obtain d where
      d: "(year, d) \<in> set result" "distinct (map fst d)" "d' = sorted_seasons d" by blast
    from season_keys_main_loop [OF a d(1)]
    have "map fst d = inserted_keys (entries files) year" .
    moreover from d(3) have "map fst d' = canonical_then_inserted (map fst d)"
      by (simp add: keys_sorted_seasons)
    moreover from d(3) have "map_of d' = map_of d"
      by (simp add: map_of_sorted_seasons)
    ultimately show "\<exists>d. (year, d) \<in> set result \<and> distinct (map fst d)
               \<and> map fst d = inserted_keys (entries files) year
               \<and> map fst d' = canonical_then_inserted (map fst d) \<and> map_of d' = map_of d"
      using d(1,2) by blast
  qed
qed

theorem output_key_order_witness:
  "main_loop ex_season_files []
     = Inr [(''2025'', [(''10'', []), (''zzz'', []), (''1'', []), (''autumn'', []), (''7'', [])]),
            (''2024'', [(''4'', [])])]
   \<and> main ex_season_files
     = Inr [(''2024'', [(''4'', [])]),
            (''2025'', [(''1'', []), (''7'', []), (''10'', []), (''zzz'', []), (''autumn'', [])])]
   \<and> inserted_keys (entries ex_season_files) ''2025'' = [''10'', ''zzz'', ''1'', ''autumn'', ''7'']
   \<and> canonical_then_inserted [''10'', ''zzz'', ''1'', ''autumn'', ''7'']
     = [''1'', ''7'', ''10'', ''zzz'', ''autumn'']
   \<and> sorted_wrt (<) [''2024'', ''2025'']"
  using output_key_order [of ex_season_files
      "[(''2025'', [(''10'', []), (''zzz'', []), (''1'', []), (''autumn'', []), (''7'', [])]),
        (''2024'', [(''4'', [])])]"]
  by (simp add: ex_defs eval_defs canonical_then_inserted_def entries_def entry_of_def
      inserted_keys_def insert_key_def)

subsection \<open>The processing order\<close>

text \<open>
  Claim C3, as the specification states it, fails: two files for the season 2026-winter
  with different items print the items of whichever file is processed last.
\<close>

theorem processing_order_counterexample:
  "mset [Parsed ex_data_b, Parsed ex_data] = mset [Parsed ex_data, Parsed ex_data_b]
   \<and> main [Parsed ex_data, Parsed ex_data_b] = Inr ex_doc_b
   \<and> main [Parsed ex_data_b, Parsed ex_data] = Inr ex_doc
   \<and> ex_doc_b \<noteq> ex_doc"
  by (simp add: ex_defs eval_defs)

text \<open>
  Claim C3, amended. For every collection of input files in which two files that resolve
  to the same year and season code produce the same item list, and in which no year
  receives two different season codes outside the canonical four, every processing
  order prints the same document; when a file raises, no order prints a document.
\<close>

theorem order_independent_output:
  "mset files' = mset files \<and> order_independent (entries files) \<longrightarrow>
     printed (main files') = printed (main files)"
proof (intro impI)
  assume a: "mset files' = mset files \<and> order_independent (entries files)"
  then have s: "set files' = set files" by (auto dest: mset_eq_setD)
  from a have oi: "order_independent (entries files)" by simp
  let ?F = "\<lambda>f. store_entry (entry_of f)"
  show "printed (main files') = printed (main files)"
  proof (cases "\<exists>f\<in>set files. raises (file_entry f)")
    case True
    then have "raises (main files)" by (simp add: main_raises)
    moreover from True s have "raises (main files')" by (simp add: main_raises)
    ultimately show ?thesis by (simp add: printed_raises)
  next
    case False
    then have nr: "\<forall>f\<in>set files. \<not> raises (file_entry f)" by blast
    then have nr': "\<forall>f\<in>set files'. \<not> raises (file_entry f)" using s by simp
    from nr have m: "main files = Inr (sorted_result (fold ?F files []))"
      by (rule main_no_raise)
    from nr' have m': "main files' = Inr (sorted_result (fold ?F files' []))"
      by (rule main_no_raise)
    have e: "set (entries files') = set (entries files)" by (simp add: set_entries s)
    have "sorted_result (fold ?F files []) = sorted_result (fold ?F files' [])"
    proof (rule sorted_result_cong)
      show "dict_like (fold ?F files [])" "dict_like (fold ?F files' [])"
        by (simp_all add: dict_like_fold dict_like_Nil)
      show "fst ` set (fold ?F files []) = fst ` set (fold ?F files' [])"
        by (simp only: keys_fold e)
      show "lookup2 (fold ?F files []) year k = lookup2 (fold ?F files' []) year k" for year k
        using lookup2_fold_set [OF s oi] by simp
      show "inj_on season_order_get (set (map fst d))" if "(year, d) \<in> set (fold ?F files [])"
        for year d using oi that by (rule fold_rank_inj)
    qed
    with m m' show ?thesis by simp
  qed
qed

theorem order_independent_output_witness:
  "mset (rev ex_order_files) = mset ex_order_files
   \<and> entries ex_order_files
     = [((''2025'', ''zzz''), []), ((''2026'', ''1''), [ex_compact]), ((''2025'', ''10''), [])]
   \<and> order_independent (entries ex_order_files)
   \<and> main ex_order_files
     = Inr [(''2025'', [(''10'', []), (''zzz'', [])]), (''2026'', [(''1'', [ex_compact])])]
   \<and> main (rev ex_order_files)
     = Inr [(''2025'', [(''10'', []), (''zzz'', [])]), (''2026'', [(''1'', [ex_compact])])]
   \<and> printed (main (rev ex_order_files)) = printed (main ex_order_files)"
  using order_independent_output [of "rev ex_order_files" ex_order_files]
  by (simp add: ex_defs eval_defs entries_def entry_of_def
      order_independent_def printed_def)

end
